theory Spec2Isabelle
  imports Main
begin

section \<open>Pixels and images as the imaging library hands them to the script\<close>

text \<open>
  The script \<^verbatim>\<open>scripts/remove_white_background.py\<close> reads an image with PIL, turns it
  into mode RGBA and walks over \<^verbatim>\<open>img.getdata()\<close>, a row-major sequence of pixel tuples.
  A pixel tuple has three channels (mode RGB) or four (mode RGBA); channel values are
  Python integers. The model covers images of these two modes. A file of mode RGB may
  declare one colour as transparent (the \<^verbatim>\<open>tRNS\<close> chunk of a PNG file), which PIL keeps
  as \<^verbatim>\<open>img.info['transparency']\<close>.
\<close>

datatype pixel = RGB int int int | RGBA int int int int

datatype mode = ModeRGB | ModeRGBA

type_synonym rgb = "int \<times> int \<times> int"

record image =
  img_mode :: mode
  img_size :: "nat \<times> nat"
  img_data :: "pixel list"
  img_transparency :: "rgb option"

text \<open>\<^verbatim>\<open>item[:3]\<close> and \<^verbatim>\<open>len(item)\<close> on a pixel tuple.\<close>

fun slice3 :: "pixel \<Rightarrow> rgb" where
  "slice3 (RGB r g b) = (r, g, b)"
| "slice3 (RGBA r g b a) = (r, g, b)"

fun len :: "pixel \<Rightarrow> nat" where
  "len (RGB r g b) = 3"
| "len (RGBA r g b a) = 4"

text \<open>
  \<^verbatim>\<open>img.convert('RGBA')\<close>: a three-channel pixel gains alpha 255, unless it has the
  colour the image declares as transparent, when it gains alpha 0; a four-channel pixel
  is kept. The size is kept, and the new image declares no transparent colour.
\<close>

fun promote :: "rgb option \<Rightarrow> pixel \<Rightarrow> pixel" where
  "promote transparency (RGB r g b) =
     (if transparency = Some (r, g, b) then RGBA r g b 0 else RGBA r g b 255)"
| "promote transparency (RGBA r g b a) = RGBA r g b a"

definition convert_RGBA :: "image \<Rightarrow> image" where
  "convert_RGBA img =
     img\<lparr>img_mode := ModeRGBA, img_data := map (promote (img_transparency img)) (img_data img),
         img_transparency := None\<rparr>"

text \<open>\<^verbatim>\<open>img.putdata(new_data)\<close>, with one entry of \<^verbatim>\<open>new_data\<close> per pixel.\<close>

definition putdata :: "image \<Rightarrow> pixel list \<Rightarrow> image" where
  "putdata img new_data = img\<lparr>img_data := new_data\<rparr>"

section \<open>Exceptions\<close>

datatype error =
    IndexError
  | UnidentifiedImageError
  | FileNotFoundError
  | IsADirectoryError
  | OSError
  | NameError string

text \<open>
  Indexing a sequence: a negative index counts from the end, an index out of range
  raises \<^verbatim>\<open>IndexError\<close>.
\<close>

definition getitem :: "'a list \<Rightarrow> int \<Rightarrow> error + 'a" where
  "getitem xs i =
     (let n = int (length xs); j = (if i < 0 then i + n else i)
      in if 0 \<le> j \<and> j < n then Inr (xs ! nat j) else Inl IndexError)"

text \<open>
  Sequencing of statements that may raise: the first exception ends the sequence.
\<close>

definition bind_exc :: "error + 'a \<Rightarrow> ('a \<Rightarrow> error + 'b) \<Rightarrow> error + 'b" where
  "bind_exc m f = (case m of Inl e \<Rightarrow> Inl e | Inr x \<Rightarrow> f x)"

section \<open>Background detection (lines 39--50)\<close>

text \<open>
  \<^verbatim>\<open>
  corners = [data[0], data[img.size[0] - 1],
             data[img.size[0] * (img.size[1] - 1)],
             data[img.size[0] * img.size[1] - 1]]
  \<close>
\<close>

definition corners :: "pixel list \<Rightarrow> nat \<times> nat \<Rightarrow> error + pixel list" where
  "corners data sz =
     bind_exc (getitem data 0) (\<lambda>c0.
     bind_exc (getitem data (int (fst sz) - 1)) (\<lambda>c1.
     bind_exc (getitem data (int (fst sz) * (int (snd sz) - 1))) (\<lambda>c2.
     bind_exc (getitem data (int (fst sz) * int (snd sz) - 1)) (\<lambda>c3.
     Inr [c0, c1, c2, c3]))))"

text \<open>
  \<^verbatim>\<open>collections.Counter\<close>: a dictionary of counts that keeps its keys in the order of
  their first insertion, here an association list.
\<close>

fun counter_add :: "'a \<Rightarrow> ('a \<times> nat) list \<Rightarrow> ('a \<times> nat) list" where
  "counter_add x [] = [(x, 1)]"
| "counter_add x ((k, n) # kvs) =
     (if k = x then (k, n + 1) # kvs else (k, n) # counter_add x kvs)"

definition Counter :: "'a list \<Rightarrow> ('a \<times> nat) list" where
  "Counter xs = foldl (\<lambda>c x. counter_add x c) [] xs"

text \<open>
  \<^verbatim>\<open>most_common(1)\<close> is \<^verbatim>\<open>heapq.nlargest(1, items, key=count)\<close>, which for one element
  is \<^verbatim>\<open>max\<close> over the items in dictionary order: the running maximum is replaced only
  by a strictly greater count, and an empty counter gives the empty list.
\<close>

fun max_count :: "('a \<times> nat) \<Rightarrow> ('a \<times> nat) list \<Rightarrow> ('a \<times> nat)" where
  "max_count best [] = best"
| "max_count best (kv # kvs) =
     (if snd kv > snd best then max_count kv kvs else max_count best kvs)"

definition most_common_1 :: "('a \<times> nat) list \<Rightarrow> ('a \<times> nat) list" where
  "most_common_1 c = (case c of [] \<Rightarrow> [] | kv # kvs \<Rightarrow> [max_count kv kvs])"

text \<open>
  \<^verbatim>\<open>
  corner_colors = [tuple(corner[:3]) for corner in corners]
  bg_color = Counter(corner_colors).most_common(1)[0][0]
  \<close>
\<close>

definition detect_background :: "pixel list \<Rightarrow> nat \<times> nat \<Rightarrow> error + rgb" where
  "detect_background data sz =
     bind_exc (corners data sz) (\<lambda>cs.
     let corner_colors = map slice3 cs in
     bind_exc (getitem (most_common_1 (Counter corner_colors)) 0) (\<lambda>kv.
     Inr (fst kv)))"

section \<open>The pixel loop (lines 54--75)\<close>

text \<open>
  \<^verbatim>\<open>abs(r - bg_color[0]) + abs(g - bg_color[1]) + abs(b - bg_color[2])\<close>
\<close>

definition color_distance :: "rgb \<Rightarrow> rgb \<Rightarrow> int" where
  "color_distance c bg_color =
     (case c of (r, g, b) \<Rightarrow> case bg_color of (br, bgr, bb) \<Rightarrow>
        \<bar>r - br\<bar> + \<bar>g - bgr\<bar> + \<bar>b - bb\<bar>)"

text \<open>
  The loop \<^verbatim>\<open>for item in data\<close> with its two accumulators \<^verbatim>\<open>new_data\<close> and
  \<^verbatim>\<open>pixels_changed\<close>.
\<close>

fun pixel_loop :: "rgb \<Rightarrow> int \<Rightarrow> pixel list \<Rightarrow> pixel list \<Rightarrow> nat \<Rightarrow> pixel list \<times> nat" where
  "pixel_loop bg_color tolerance [] new_data pixels_changed = (new_data, pixels_changed)"
| "pixel_loop bg_color tolerance (item # rest) new_data pixels_changed =
     (case slice3 item of (r, g, b) \<Rightarrow>
        if color_distance (r, g, b) bg_color \<le> tolerance
        then pixel_loop bg_color tolerance rest (new_data @ [RGBA r g b 0]) (pixels_changed + 1)
        else if len item = 4
        then pixel_loop bg_color tolerance rest (new_data @ [item]) pixels_changed
        else pixel_loop bg_color tolerance rest (new_data @ [RGBA r g b 255]) pixels_changed)"

section \<open>Paths and strings\<close>

text \<open>
  \<^verbatim>\<open>p.rfind(c)\<close>: the index of the last occurrence of \<^verbatim>\<open>c\<close>, or \<^verbatim>\<open>-1\<close>.
\<close>

definition rfind :: "string \<Rightarrow> char \<Rightarrow> int" where
  "rfind p c =
     (if c \<in> set p then int (length p) - 1 - int (length (takeWhile (\<lambda>x. x \<noteq> c) (rev p)))
      else - 1)"

text \<open>
  \<^verbatim>\<open>os.path.splitext\<close> (POSIX): the extension starts at the last dot of the last path
  component, unless that component has only leading dots before it.
  \<^verbatim>\<open>
  sepIndex = p.rfind('/'); dotIndex = p.rfind('.')
  if dotIndex > sepIndex:
      filenameIndex = sepIndex + 1
      while filenameIndex < dotIndex:
          if p[filenameIndex:filenameIndex+1] != '.':
              return p[:dotIndex], p[dotIndex:]
          filenameIndex += 1
  return p, p[:0]
  \<close>
\<close>

function splitext_loop :: "string \<Rightarrow> int \<Rightarrow> int \<Rightarrow> string \<times> string" where
  "splitext_loop p filenameIndex dotIndex =
     (if filenameIndex < dotIndex
      then if take 1 (drop (nat filenameIndex) p) \<noteq> ''.''
           then (take (nat dotIndex) p, drop (nat dotIndex) p)
           else splitext_loop p (filenameIndex + 1) dotIndex
      else (p, []))"
  by pat_completeness auto
termination
  by (relation "measure (\<lambda>(p, filenameIndex, dotIndex). nat (dotIndex - filenameIndex))") auto

declare splitext_loop.simps [simp del]

definition splitext :: "string \<Rightarrow> string \<times> string" where
  "splitext p =
     (let sepIndex = rfind p CHR ''/''; dotIndex = rfind p CHR ''.''
      in if dotIndex > sepIndex then splitext_loop p (sepIndex + 1) dotIndex else (p, []))"

text \<open>\<^verbatim>\<open>os.path.join(a, b)\<close>, \<^verbatim>\<open>os.path.basename(p)\<close> (POSIX) and \<^verbatim>\<open>s.upper()\<close> (ASCII).\<close>

definition join :: "string \<Rightarrow> string \<Rightarrow> string" where
  "join a b =
     (if take 1 b = ''/'' then b
      else if a = [] \<or> last a = CHR ''/'' then a @ b
      else a @ ''/'' @ b)"

definition basename :: "string \<Rightarrow> string" where
  "basename p = drop (nat (rfind p CHR ''/'' + 1)) p"

definition upper_char :: "char \<Rightarrow> char" where
  "upper_char c =
     (case map_of (zip ''abcdefghijklmnopqrstuvwxyz'' ''ABCDEFGHIJKLMNOPQRSTUVWXYZ'') c of
        None \<Rightarrow> c | Some u \<Rightarrow> u)"

definition upper :: "string \<Rightarrow> string" where
  "upper s = map upper_char s"

text \<open>
  \<^verbatim>\<open>int(s)\<close> is a builtin of the interpreter. What it accepts depends on the
  interpreter (its limit on the number of digits, its Unicode tables), so \<^verbatim>\<open>main\<close>
  below takes the builtin as a parameter: a function from the argument string to the
  integer read, where \<^verbatim>\<open>None\<close> is the \<^verbatim>\<open>ValueError\<close>.

  \<open>py_int\<close> is that builtin on strings of ASCII characters, as CPython 3.11 has it with
  its default settings: the whitespace characters 0x09 to 0x0D and 0x20 are dropped at
  both ends, then comes an optional sign and decimal digits, where single underscores
  may stand between digits; more than 4300 digits are refused.
\<close>

definition is_space :: "char \<Rightarrow> bool" where
  "is_space c \<longleftrightarrow>
     c \<in> set [CHR 0x09, CHR 0x0A, CHR 0x0B, CHR 0x0C, CHR 0x0D, CHR 0x20]"

definition strip :: "string \<Rightarrow> string" where
  "strip s = rev (dropWhile is_space (rev (dropWhile is_space s)))"

definition is_digit :: "char \<Rightarrow> bool" where
  "is_digit c \<longleftrightarrow> c \<in> set ''0123456789''"

definition digit_value :: "char \<Rightarrow> int" where
  "digit_value c = int (length (takeWhile (\<lambda>d. d \<noteq> c) ''0123456789''))"

fun parse_digits :: "bool \<Rightarrow> int \<Rightarrow> string \<Rightarrow> int option" where
  "parse_digits after_digit acc [] = (if after_digit then Some acc else None)"
| "parse_digits after_digit acc (c # cs) =
     (if is_digit c then parse_digits True (10 * acc + digit_value c) cs
      else if c = CHR ''_'' \<and> after_digit \<and> cs \<noteq> [] \<and> is_digit (hd cs)
      then parse_digits False acc cs
      else None)"

definition max_str_digits :: nat where
  "max_str_digits = 4300"

definition parse_number :: "string \<Rightarrow> int option" where
  "parse_number body =
     (if length (filter is_digit body) > max_str_digits then None
      else parse_digits False 0 body)"

definition py_int :: "string \<Rightarrow> int option" where
  "py_int s =
     (case strip s of
        [] \<Rightarrow> None
      | c # cs \<Rightarrow>
          if c = CHR ''-'' then map_option uminus (parse_number cs)
          else if c = CHR ''+'' then parse_number cs
          else parse_number (c # cs))"

section \<open>The world outside: files, globbing, standard output\<close>

text \<open>
  A path holds a decodable image, some other file, or a directory. A write to a path
  may fail for reasons of the environment (\<open>write_fails\<close>). \<open>glob_result\<close> is what
  \<^verbatim>\<open>glob.glob\<close> answers for a pattern. Every \<^verbatim>\<open>print\<close> of the script is one message.
\<close>

datatype node = ImageFile image | OtherFile | Directory

datatype message =
    MsgInputNotFound string
  | MsgOriginalSize "nat \<times> nat"
  | MsgOriginalMode mode
  | MsgDetectedBackground rgb
  | MsgSuccess
  | MsgPixelsChanged nat
  | MsgOutputSaved string
  | MsgErrorProcessing error
  | MsgDirNotFound string
  | MsgNoImageFiles string
  | MsgFound nat
  | MsgListed string
  | MsgProcessing string
  | MsgBackupCreated string
  | MsgBackupWarning error
  | MsgFailedToProcess string
  | MsgComplete
  | MsgSummary nat nat
  | MsgBackupNote
  | MsgBackupHint
  | MsgUsage
  | MsgExample
  | MsgInvalidTolerance
  | MsgFileNotFound string
  | MsgProcessingFile string
  | MsgTolerance int
  | MsgNoBackup
  | MsgCompleted
  | MsgProcessingFailed

record world =
  files :: "string \<rightharpoonup> node"
  write_fails :: "string \<Rightarrow> bool"
  glob_result :: "string \<Rightarrow> string list"
  stdout :: "message list"

definition print :: "world \<Rightarrow> message \<Rightarrow> world" where
  "print w m = w\<lparr>stdout := stdout w @ [m]\<rparr>"

definition path_exists :: "world \<Rightarrow> string \<Rightarrow> bool" where
  "path_exists w p \<longleftrightarrow> files w p \<noteq> None"

definition Image_open :: "world \<Rightarrow> string \<Rightarrow> error + image" where
  "Image_open w p =
     (case files w p of
        None \<Rightarrow> Inl FileNotFoundError
      | Some Directory \<Rightarrow> Inl IsADirectoryError
      | Some OtherFile \<Rightarrow> Inl UnidentifiedImageError
      | Some (ImageFile img) \<Rightarrow> Inr img)"

text \<open>
  \<^verbatim>\<open>img.save(output_path, "PNG")\<close>: a directory cannot be written, and the
  environment may refuse the write; otherwise the path then holds the image as a PNG
  file gives it back (\<open>written\<close>): a file with an alpha channel declares no transparent
  colour.
\<close>

definition written :: "image \<Rightarrow> image" where
  "written img = (if img_mode img = ModeRGBA then img\<lparr>img_transparency := None\<rparr> else img)"

definition save :: "world \<Rightarrow> image \<Rightarrow> string \<Rightarrow> error + world" where
  "save w img p =
     (if files w p = Some Directory then Inl IsADirectoryError
      else if write_fails w p then Inl OSError
      else Inr (w\<lparr>files := (files w)(p \<mapsto> ImageFile (written img))\<rparr>))"

text \<open>\<^verbatim>\<open>shutil.copy2(src, dst)\<close>\<close>

definition copy2 :: "world \<Rightarrow> string \<Rightarrow> string \<Rightarrow> error + world" where
  "copy2 w src dst =
     (case files w src of
        None \<Rightarrow> Inl FileNotFoundError
      | Some Directory \<Rightarrow> Inl IsADirectoryError
      | Some f \<Rightarrow>
          if write_fails w dst then Inl OSError
          else Inr (w\<lparr>files := (files w)(dst \<mapsto> f)\<rparr>))"

section \<open>\<^verbatim>\<open>remove_background\<close> (lines 12--96)\<close>

text \<open>
  Lines 32--34: \<^verbatim>\<open>if img.mode != 'RGBA': img = img.convert('RGBA')\<close>.
\<close>

definition ensure_RGBA :: "image \<Rightarrow> image" where
  "ensure_RGBA img = (if img_mode img \<noteq> ModeRGBA then convert_RGBA img else img)"

text \<open>
  Lines 80--83: the path that is written.
  \<^verbatim>\<open>
  if output_path is None:
      base, ext = os.path.splitext(input_path)
      output_path = f"{base}_transparent{ext}"
  \<close>
\<close>

definition resolve_output_path :: "string \<Rightarrow> string option \<Rightarrow> string" where
  "resolve_output_path input_path output_path =
     (case output_path of
        None \<Rightarrow> (case splitext input_path of (base, ext) \<Rightarrow> base @ ''_transparent'' @ ext)
      | Some p \<Rightarrow> p)"

text \<open>
  The body of the \<^verbatim>\<open>try\<close> block, lines 27--92. It gives the world as it is when the
  block ends, and either the exception that ended it or the value it returns.
\<close>

definition remove_background_body ::
  "world \<Rightarrow> string \<Rightarrow> string option \<Rightarrow> int \<Rightarrow> world \<times> (error + bool)" where
  "remove_background_body w input_path output_path tolerance =
     (case Image_open w input_path of
        Inl e \<Rightarrow> (w, Inl e)
      | Inr img0 \<Rightarrow>
         (let w1 = print (print w (MsgOriginalSize (img_size img0)))
                     (MsgOriginalMode (img_mode img0));
              img = ensure_RGBA img0;
              data = img_data img
          in (case detect_background data (img_size img) of
                Inl e \<Rightarrow> (w1, Inl e)
              | Inr bg_color \<Rightarrow>
                 (let w2 = print w1 (MsgDetectedBackground bg_color);
                      (new_data, pixels_changed) = pixel_loop bg_color tolerance data [] 0;
                      img' = putdata img new_data;
                      output_path' = resolve_output_path input_path output_path
                  in (case save w2 img' output_path' of
                        Inl e \<Rightarrow> (w2, Inl e)
                      | Inr w3 \<Rightarrow>
                          (print (print (print w3 MsgSuccess)
                             (MsgPixelsChanged pixels_changed))
                             (MsgOutputSaved output_path'),
                           Inr True))))))"

definition remove_background ::
  "world \<Rightarrow> string \<Rightarrow> string option \<Rightarrow> int \<Rightarrow> world \<times> bool" where
  "remove_background w input_path output_path tolerance =
     (if \<not> path_exists w input_path
      then (print w (MsgInputNotFound input_path), False)
      else (case remove_background_body w input_path output_path tolerance of
              (w', Inr r) \<Rightarrow> (w', r)
            | (w', Inl e) \<Rightarrow> (print w' (MsgErrorProcessing e), False)))"

section \<open>\<^verbatim>\<open>process_directory\<close> (lines 98--157)\<close>

text \<open>
  The names the module defines at top level that take a path, an output path and a
  tolerance. Calling a name that the module does not define raises \<^verbatim>\<open>NameError\<close>.
\<close>

definition module_globals ::
  "string \<Rightarrow> (world \<Rightarrow> string \<Rightarrow> string option \<Rightarrow> int \<Rightarrow> world \<times> bool) option" where
  "module_globals name =
     (if name = ''remove_background'' then Some remove_background else None)"

definition image_extensions :: "string list" where
  "image_extensions = [''*.png'', ''*.jpg'', ''*.jpeg'', ''*.bmp'', ''*.tiff'']"

text \<open>The loop of lines 116--118.\<close>

fun find_images :: "world \<Rightarrow> string \<Rightarrow> string list \<Rightarrow> string list \<Rightarrow> string list" where
  "find_images w directory_path [] image_files = image_files"
| "find_images w directory_path (ext # exts) image_files =
     find_images w directory_path exts
       (image_files @ glob_result w (join directory_path ext)
                    @ glob_result w (join directory_path (upper ext)))"

text \<open>
  The loop of lines 130--148. The call of line 145 is to the name
  \<^verbatim>\<open>remove_white_background\<close>.
\<close>

fun process_files ::
  "world \<Rightarrow> string list \<Rightarrow> int \<Rightarrow> bool \<Rightarrow> nat \<Rightarrow> world \<times> (error + nat)" where
  "process_files w [] tolerance backup success_count = (w, Inr success_count)"
| "process_files w (img_file # rest) tolerance backup success_count =
     (let w1 = print w (MsgProcessing (basename img_file));
          backup_path = img_file @ ''.backup'';
          w2 = (if backup \<and> \<not> path_exists w1 backup_path
                then (case copy2 w1 img_file backup_path of
                        Inr w' \<Rightarrow> print w' (MsgBackupCreated (basename backup_path))
                      | Inl e \<Rightarrow> print w1 (MsgBackupWarning e))
                else w1)
      in (case module_globals ''remove_white_background'' of
            None \<Rightarrow> (w2, Inl (NameError ''remove_white_background''))
          | Some f \<Rightarrow>
              (case f w2 img_file (Some img_file) tolerance of
                 (w3, True) \<Rightarrow> process_files w3 rest tolerance backup (success_count + 1)
               | (w3, False) \<Rightarrow>
                   process_files (print w3 (MsgFailedToProcess (basename img_file)))
                     rest tolerance backup success_count)))"

definition process_directory ::
  "world \<Rightarrow> string \<Rightarrow> int \<Rightarrow> bool \<Rightarrow> world \<times> (error + bool)" where
  "process_directory w directory_path tolerance backup =
     (if \<not> path_exists w directory_path
      then (print w (MsgDirNotFound directory_path), Inr False)
      else
        (let image_files = find_images w directory_path image_extensions []
         in if image_files = []
            then (print w (MsgNoImageFiles directory_path), Inr False)
            else
              (let w1 = print w (MsgFound (length image_files));
                   w2 = foldl (\<lambda>w img_file. print w (MsgListed (basename img_file)))
                          w1 image_files
               in (case process_files w2 image_files tolerance backup 0 of
                     (w3, Inl e) \<Rightarrow> (w3, Inl e)
                   | (w3, Inr success_count) \<Rightarrow>
                       (let w4 = print (print w3 MsgComplete)
                                   (MsgSummary success_count (length image_files));
                            w5 = (if backup then print (print w4 MsgBackupNote) MsgBackupHint
                                  else w4)
                        in (w5, Inr (success_count > 0)))))))"

section \<open>\<^verbatim>\<open>main\<close> (lines 159--197)\<close>

text \<open>
  Lines 179--183: a bare file name is looked up in the directory \<^verbatim>\<open>assets\<close>.
\<close>

definition resolve_filepath :: "string \<Rightarrow> string" where
  "resolve_filepath filename =
     (if CHR ''/'' \<notin> set filename then join ''assets'' filename else filename)"

definition main :: "(string \<Rightarrow> int option) \<Rightarrow> string list \<Rightarrow> world \<Rightarrow> world" where
  "main builtin_int argv w =
     (let tolerance = 30
      in if length argv < 2 then print (print w MsgUsage) MsgExample
         else
           (let filename = argv ! 1;
                (w1, tolerance) =
                  (if length argv > 2
                   then (case builtin_int (argv ! 2) of
                           Some t \<Rightarrow> (w, t)
                         | None \<Rightarrow> (print w MsgInvalidTolerance, tolerance))
                   else (w, tolerance));
                filepath = resolve_filepath filename
            in if \<not> path_exists w1 filepath then print w1 (MsgFileNotFound filepath)
               else
                 (let w2 = print (print (print w1 (MsgProcessingFile filepath))
                             (MsgTolerance tolerance)) MsgNoBackup;
                      (w3, success) = remove_background w2 filepath (Some filepath) tolerance
                  in if success then print w3 MsgCompleted
                     else print w3 MsgProcessingFailed)))"

section \<open>Notions used in the statements\<close>

text \<open>
  What one pass of the loop body appends to \<^verbatim>\<open>new_data\<close> for \<^verbatim>\<open>item\<close>, and whether
  that pass increments \<^verbatim>\<open>pixels_changed\<close>: the three branches of lines 66--75.
\<close>

definition appended :: "rgb \<Rightarrow> int \<Rightarrow> pixel \<Rightarrow> pixel" where
  "appended bg_color tolerance item =
     (case slice3 item of (r, g, b) \<Rightarrow>
        if color_distance (r, g, b) bg_color \<le> tolerance then RGBA r g b 0
        else if len item = 4 then item else RGBA r g b 255)"

definition near :: "rgb \<Rightarrow> int \<Rightarrow> pixel \<Rightarrow> bool" where
  "near bg_color tolerance item \<longleftrightarrow> color_distance (slice3 item) bg_color \<le> tolerance"

text \<open>
  The pixel that lines 32--34 make of a pixel of the image \<open>img\<close>.
\<close>

definition as_RGBA :: "image \<Rightarrow> pixel \<Rightarrow> pixel" where
  "as_RGBA img p = (if img_mode img \<noteq> ModeRGBA then promote (img_transparency img) p else p)"

text \<open>
  The first element of \<open>best # xs\<close> at which \<open>f\<close> is greatest; \<open>unseen S xs\<close> drops
  from \<open>xs\<close> what is in \<open>S\<close> or occurred before; \<open>count_in c k\<close> reads a count off a
  counter.
\<close>

fun first_max :: "('a \<Rightarrow> nat) \<Rightarrow> 'a \<Rightarrow> 'a list \<Rightarrow> 'a" where
  "first_max f best [] = best"
| "first_max f best (x # xs) = (if f x > f best then first_max f x xs else first_max f best xs)"

fun unseen :: "'a set \<Rightarrow> 'a list \<Rightarrow> 'a list" where
  "unseen S [] = []"
| "unseen S (x # xs) = (if x \<in> S then unseen S xs else x # unseen (insert x S) xs)"

definition count_in :: "('a \<times> nat) list \<Rightarrow> 'a \<Rightarrow> nat" where
  "count_in c k = (case map_of c k of None \<Rightarrow> 0 | Some n \<Rightarrow> n)"

text \<open>
  The specification addresses a pixel by its column \<open>x\<close> and row \<open>y\<close>, at the
  flattened row-major index \<open>y * Width + x\<close>, and samples the corners in the order
  top-left, top-right, bottom-left, bottom-right, keeping the RGB channels of each.
\<close>

definition pixel_at :: "pixel list \<Rightarrow> nat \<Rightarrow> nat \<Rightarrow> nat \<Rightarrow> pixel" where
  "pixel_at data W x y = data ! (y * W + x)"

definition corner_samples :: "pixel list \<Rightarrow> nat \<Rightarrow> nat \<Rightarrow> rgb list" where
  "corner_samples data W H =
     [slice3 (pixel_at data W 0 0), slice3 (pixel_at data W (W - 1) 0),
      slice3 (pixel_at data W 0 (H - 1)), slice3 (pixel_at data W (W - 1) (H - 1))]"

text \<open>
  The messages a call prints: what standard output holds after it, beyond what it held
  before.
\<close>

definition new_messages :: "world \<Rightarrow> world \<Rightarrow> message list" where
  "new_messages w w' = drop (length (stdout w)) (stdout w')"

section \<open>Sample inputs\<close>

text \<open>
  Images of two pixels in one row, and a world that holds one image file, where
  every write succeeds and nothing was printed yet.
\<close>

definition sample_rgb :: image where
  "sample_rgb = \<lparr>img_mode = ModeRGB, img_size = (2, 1),
                  img_data = [RGB 255 255 255, RGB 0 0 0], img_transparency = None\<rparr>"

definition sample_rgba :: image where
  "sample_rgba = \<lparr>img_mode = ModeRGBA, img_size = (2, 1),
                   img_data = [RGBA 255 255 255 128, RGBA 0 0 0 77],
                   img_transparency = None\<rparr>"

definition sample_near :: image where
  "sample_near = \<lparr>img_mode = ModeRGB, img_size = (2, 1),
                   img_data = [RGB 255 255 255, RGB 250 250 250],
                   img_transparency = None\<rparr>"

text \<open>
  The image of \<open>sample_rgb\<close> from a file that declares black as its transparent colour.
\<close>

definition sample_trns :: image where
  "sample_trns = \<lparr>img_mode = ModeRGB, img_size = (2, 1),
                   img_data = [RGB 255 255 255, RGB 0 0 0],
                   img_transparency = Some (0, 0, 0)\<rparr>"

definition world_with :: "string \<Rightarrow> image \<Rightarrow> world" where
  "world_with p img = \<lparr>files = [p \<mapsto> ImageFile img], write_fails = (\<lambda>p. False),
                        glob_result = (\<lambda>p. []), stdout = []\<rparr>"

text \<open>A world with another file in it, where something was printed before.\<close>

definition world_later :: world where
  "world_later = \<lparr>files = [''a.png'' \<mapsto> ImageFile sample_rgb, ''old.txt'' \<mapsto> OtherFile],
                   write_fails = (\<lambda>p. p = ''locked''), glob_result = (\<lambda>p. []),
                   stdout = [MsgUsage, MsgExample]\<rparr>"

text \<open>
  A directory \<^verbatim>\<open>d\<close> with two images, as \<^verbatim>\<open>glob\<close> lists them for the pattern
  \<^verbatim>\<open>d/*.png\<close>.
\<close>

definition batch_world :: world where
  "batch_world = \<lparr>files = [''d'' \<mapsto> Directory, ''d/b.png'' \<mapsto> ImageFile sample_rgb,
                            ''d/c.png'' \<mapsto> ImageFile sample_near],
                   write_fails = (\<lambda>p. False),
                   glob_result = (\<lambda>p. if p = ''d/*.png'' then [''d/b.png'', ''d/c.png'']
                                       else []),
                   stdout = []\<rparr>"

section \<open>The pixel loop as a map over the pixels\<close>

lemma pixel_loop_acc:
  "pixel_loop bg tol data new_data n =
     (new_data @ map (appended bg tol) data, n + length (filter (near bg tol) data))"
  by (induction data arbitrary: new_data n) (auto simp: near_def appended_def split: prod.splits)

lemma appended_cases:
  "appended (br, bgr, bb) tol (RGB r g b) =
     (if \<bar>r - br\<bar> + \<bar>g - bgr\<bar> + \<bar>b - bb\<bar> \<le> tol then RGBA r g b 0 else RGBA r g b 255)"
  "appended (br, bgr, bb) tol (RGBA r g b a) =
     (if \<bar>r - br\<bar> + \<bar>g - bgr\<bar> + \<bar>b - bb\<bar> \<le> tol then RGBA r g b 0 else RGBA r g b a)"
  by (simp_all add: color_distance_def appended_def)

lemma slice3_appended: "slice3 (appended bg tol p) = slice3 p"
  by (cases p) (auto simp: appended_def split: prod.splits)

lemma slice3_promote: "slice3 (promote t p) = slice3 p"
  by (cases p) simp_all

lemma slice3_as_RGBA: "slice3 (as_RGBA img p) = slice3 p"
  by (simp add: as_RGBA_def slice3_promote)

lemma near_as_RGBA: "near bg tol (as_RGBA img p) = near bg tol p"
  by (simp add: near_def slice3_as_RGBA)

lemma ensure_RGBA_data: "img_data (ensure_RGBA img) = map (as_RGBA img) (img_data img)"
proof (cases "img_mode img = ModeRGBA")
  case True
  then have "as_RGBA img = (\<lambda>p. p)" by (simp add: as_RGBA_def fun_eq_iff)
  with True show ?thesis by (simp add: ensure_RGBA_def)
next
  case False
  then have "as_RGBA img = promote (img_transparency img)"
    by (simp add: as_RGBA_def fun_eq_iff)
  with False show ?thesis by (simp add: ensure_RGBA_def convert_RGBA_def)
qed

section \<open>Indexing and the corner samples\<close>

lemma getitem_in_range:
  "0 \<le> i \<Longrightarrow> i < int (length xs) \<Longrightarrow> getitem xs i = Inr (xs ! nat i)"
  by (simp add: getitem_def)

lemma getitem_empty: "getitem [] i = Inl IndexError"
  by (simp add: getitem_def)

lemma getitem_single: "getitem [x] 0 = Inr x"
  by (simp add: getitem_def)

lemma getitem_map:
  "getitem (map f xs) i = (case getitem xs i of Inl e \<Rightarrow> Inl e | Inr x \<Rightarrow> Inr (f x))"
  by (simp add: getitem_def Let_def)

lemma corner_indices:
  assumes "length data = W * H" "1 \<le> W" "1 \<le> H"
  shows "0 \<le> int W - 1" "int W - 1 < int (length data)"
        "0 \<le> int W * (int H - 1)" "int W * (int H - 1) < int (length data)"
        "0 \<le> int W * int H - 1" "int W * int H - 1 < int (length data)"
        "(0::int) < int (length data)"
proof -
  from assms have WH: "W \<le> W * H" "0 < W * H" by simp_all
  have len: "int (length data) = int (W * H)" using assms(1) by simp
  have prod: "int W * int H = int (W * H)" by simp
  have wle: "int W \<le> int (W * H)" using WH(1) by (simp only: of_nat_le_iff)
  have pos: "0 < int (W * H)" using WH(2) by (simp only: of_nat_0_less_iff)
  have w1: "1 \<le> int W" using assms(2) by simp
  have h1: "1 \<le> int H" using assms(3) by simp
  show "0 \<le> int W - 1" using w1 by simp
  show "int W - 1 < int (length data)" unfolding len using wle by linarith
  show "0 \<le> int W * (int H - 1)" using w1 h1 by simp
  have "int W * (int H - 1) = int (W * H) - int W" by (simp add: algebra_simps)
  then show "int W * (int H - 1) < int (length data)" unfolding len using w1 by linarith
  show "0 \<le> int W * int H - 1" unfolding prod using pos by linarith
  show "int W * int H - 1 < int (length data)" unfolding len prod by linarith
  show "(0::int) < int (length data)" unfolding len using pos .
qed

lemma corner_index_nat:
  assumes "1 \<le> W" "1 \<le> H"
  shows "nat (int W - 1) = W - 1" "nat (int W * (int H - 1)) = (H - 1) * W + 0"
        "nat (int W * int H - 1) = (H - 1) * W + (W - 1)"
proof -
  show "nat (int W - 1) = W - 1" by simp
  from assms have "int W * (int H - 1) = int ((H - 1) * W)" by (simp add: of_nat_diff)
  then show "nat (int W * (int H - 1)) = (H - 1) * W + 0" by (simp del: of_nat_mult)
  from assms have "int W * int H - 1 = int ((H - 1) * W + (W - 1))"
    by (simp add: of_nat_diff algebra_simps)
  then show "nat (int W * int H - 1) = (H - 1) * W + (W - 1)"
    by (metis nat_int)
qed

lemma corners_ok:
  assumes "length data = W * H" "1 \<le> W" "1 \<le> H"
  shows "corners data (W, H) =
           Inr [data ! 0, data ! (W - 1), data ! ((H - 1) * W + 0), data ! ((H - 1) * W + (W - 1))]"
  using corner_indices[OF assms] corner_index_nat[OF assms(2,3)]
  by (simp add: corners_def bind_exc_def getitem_in_range)

lemma corners_pixel_at:
  assumes "length data = W * H" "1 \<le> W" "1 \<le> H"
  shows "corners data (W, H) =
           Inr [pixel_at data W 0 0, pixel_at data W (W - 1) 0,
                pixel_at data W 0 (H - 1), pixel_at data W (W - 1) (H - 1)]"
  unfolding corners_ok[OF assms] pixel_at_def by simp

lemma corners_map:
  "corners (map f data) sz = (case corners data sz of Inl e \<Rightarrow> Inl e | Inr cs \<Rightarrow> Inr (map f cs))"
  by (simp add: corners_def bind_exc_def getitem_map split: sum.splits)

section \<open>The counter and its most common key\<close>

lemma first_max_unseen:
  "\<forall>s\<in>S. f s \<le> f best \<Longrightarrow> first_max f best (unseen S xs) = first_max f best xs"
proof (induction xs arbitrary: S best)
  case Nil
  then show ?case by simp
next
  case (Cons x xs)
  show ?case
  proof (cases "x \<in> S")
    case True
    with Cons.prems have "\<not> f x > f best" by auto
    with True Cons show ?thesis by simp
  next
    case False
    show ?thesis
    proof (cases "f x > f best")
      case True
      with Cons.prems have "\<forall>s\<in>insert x S. f s \<le> f x" by auto
      from Cons.IH[OF this] True False show ?thesis by simp
    next
      case gt: False
      with Cons.prems have "\<forall>s\<in>insert x S. f s \<le> f best" by auto
      from Cons.IH[OF this] gt False show ?thesis by simp
    qed
  qed
qed

lemma max_count_first_max:
  "max_count (b, f b) (map (\<lambda>k. (k, f k)) ks) = (first_max f b ks, f (first_max f b ks))"
  by (induction ks arbitrary: b) auto

lemma counter_add_keys:
  "map fst (counter_add x c) = (if x \<in> fst ` set c then map fst c else map fst c @ [x])"
proof (induction c)
  case Nil
  show ?case by simp
next
  case (Cons kv c)
  obtain k n where kv: "kv = (k, n)" by (cases kv)
  show ?case
  proof (cases "k = x")
    case True
    with kv show ?thesis by simp
  next
    case False
    with kv Cons show ?thesis by auto
  qed
qed

lemma counter_add_key_set: "fst ` set (counter_add x c) = insert x (fst ` set c)"
proof -
  have "set (map fst (counter_add x c)) = insert x (set (map fst c))"
    unfolding counter_add_keys by auto
  then show ?thesis by simp
qed

lemma count_in_counter_add:
  "count_in (counter_add x c) k = count_in c k + (if x = k then 1 else 0)"
proof (induction c)
  case Nil
  show ?case by (simp add: count_in_def)
next
  case (Cons kv c)
  obtain k' n where kv: "kv = (k', n)" by (cases kv)
  show ?case
  proof (cases "k' = x")
    case True
    with kv show ?thesis by (simp add: count_in_def)
  next
    case False
    with kv Cons show ?thesis by (auto simp: count_in_def)
  qed
qed

lemma foldl_counter_keys:
  "map fst (foldl (\<lambda>c x. counter_add x c) c xs) = map fst c @ unseen (fst ` set c) xs"
proof (induction xs arbitrary: c)
  case Nil
  show ?case by simp
next
  case (Cons x xs)
  show ?case
    by (simp add: Cons.IH counter_add_key_set counter_add_keys insert_absorb)
qed

lemma foldl_counter_count:
  "count_in (foldl (\<lambda>c x. counter_add x c) c xs) k = count_in c k + count_list xs k"
  by (induction xs arbitrary: c) (simp_all add: count_in_counter_add)

lemma unseen_fresh: "set (unseen S xs) \<inter> S = {}"
  by (induction xs arbitrary: S) auto

lemma unseen_distinct: "distinct (unseen S xs)"
proof (induction xs arbitrary: S)
  case Nil
  show ?case by simp
next
  case (Cons x xs)
  have "x \<notin> set (unseen (insert x S) xs)"
    using unseen_fresh[of "insert x S" xs] by auto
  with Cons show ?case by simp
qed

lemma assoc_by_keys:
  "distinct (map fst c) \<Longrightarrow> c = map (\<lambda>k. (k, count_in c k)) (map fst c)"
proof (induction c)
  case Nil
  show ?case by simp
next
  case (Cons kv c)
  obtain k n where kv: "kv = (k, n)" by (cases kv)
  from Cons.prems kv have notin: "k \<notin> fst ` set c" and d: "distinct (map fst c)" by auto
  have "map (\<lambda>k'. (k', count_in (kv # c) k')) (map fst c) = map (\<lambda>k'. (k', count_in c k')) (map fst c)"
  proof (rule map_cong[OF refl])
    fix k' assume "k' \<in> set (map fst c)"
    with notin have "k' \<noteq> k" by auto
    then show "(k', count_in (kv # c) k') = (k', count_in c k')"
      by (simp add: count_in_def kv)
  qed
  with Cons.IH[OF d] have "map (\<lambda>k'. (k', count_in (kv # c) k')) (map fst c) = c" by simp
  then show ?case by (simp add: kv count_in_def)
qed

lemma Counter_eq: "Counter xs = map (\<lambda>k. (k, count_list xs k)) (unseen {} xs)"
proof -
  have keys: "map fst (Counter xs) = unseen {} xs"
    unfolding Counter_def using foldl_counter_keys[of "[]" xs] by simp
  have cnt: "\<And>k. count_in (Counter xs) k = count_list xs k"
    unfolding Counter_def using foldl_counter_count[of "[]" xs] by (simp add: count_in_def)
  have "distinct (map fst (Counter xs))" unfolding keys by (rule unseen_distinct)
  from assoc_by_keys[OF this] show ?thesis unfolding keys cnt .
qed

lemma most_common_1_Counter:
  "most_common_1 (Counter (x # xs)) =
     [(first_max (count_list (x # xs)) x xs, count_list (x # xs) (first_max (count_list (x # xs)) x xs))]"
proof -
  let ?f = "count_list (x # xs)"
  have "Counter (x # xs) = (x, ?f x) # map (\<lambda>k. (k, ?f k)) (unseen {x} xs)"
    unfolding Counter_eq by simp
  then have "most_common_1 (Counter (x # xs)) = [max_count (x, ?f x) (map (\<lambda>k. (k, ?f k)) (unseen {x} xs))]"
    by (simp add: most_common_1_def)
  also have "\<dots> = [(first_max ?f x (unseen {x} xs), ?f (first_max ?f x (unseen {x} xs)))]"
    by (simp only: max_count_first_max)
  also have "first_max ?f x (unseen {x} xs) = first_max ?f x xs"
    by (rule first_max_unseen) simp
  finally show ?thesis .
qed

lemma first_max_extends:
  assumes "k < length pre"
      and "\<forall>j<k. f (pre ! j) < f (pre ! k)"
      and "\<forall>j<length pre. f (pre ! j) \<le> f (pre ! k)"
  shows "\<exists>k'<length (pre @ xs). (pre @ xs) ! k' = first_max f (pre ! k) xs \<and>
           (\<forall>j<k'. f ((pre @ xs) ! j) < f ((pre @ xs) ! k')) \<and>
           (\<forall>j<length (pre @ xs). f ((pre @ xs) ! j) \<le> f ((pre @ xs) ! k'))"
  using assms
proof (induction xs arbitrary: pre k)
  case Nil
  then show ?case by auto
next
  case (Cons x xs)
  show ?case
  proof (cases "f x > f (pre ! k)")
    case True
    let ?pre = "pre @ [x]"
    have 1: "length pre < length ?pre" by simp
    have 2: "\<forall>j<length pre. f (?pre ! j) < f (?pre ! length pre)"
      using Cons.prems(3) True by (auto simp: nth_append) 
    have 3: "\<forall>j<length ?pre. f (?pre ! j) \<le> f (?pre ! length pre)"
      using Cons.prems(3) True by (auto simp: nth_append less_Suc_eq)
    from Cons.IH[OF 1 2 3] True show ?thesis by simp
  next
    case False
    let ?pre = "pre @ [x]"
    have 1: "k < length ?pre" using Cons.prems(1) by simp
    have 2: "\<forall>j<k. f (?pre ! j) < f (?pre ! k)"
      using Cons.prems(1,2) by (auto simp: nth_append)
    have 3: "\<forall>j<length ?pre. f (?pre ! j) \<le> f (?pre ! k)"
      using Cons.prems(1,3) False by (auto simp: nth_append less_Suc_eq)
    from Cons.IH[OF 1 2 3] False Cons.prems(1) show ?thesis by (simp add: nth_append)
  qed
qed

lemma first_max_is_first_maximum:
  "\<exists>k<length (x # xs). (x # xs) ! k = first_max f x xs \<and>
      (\<forall>j<k. f ((x # xs) ! j) < f ((x # xs) ! k)) \<and>
      (\<forall>j<length (x # xs). f ((x # xs) ! j) \<le> f ((x # xs) ! k))"
  using first_max_extends[of 0 "[x]" f xs] by simp

lemma detect_background_first_max:
  assumes "length data = W * H" "1 \<le> W" "1 \<le> H"
  shows "detect_background data (W, H) =
     Inr (first_max (count_list (corner_samples data W H))
            (hd (corner_samples data W H)) (tl (corner_samples data W H)))"
proof -
  let ?cs = "corner_samples data W H"
  have cs: "?cs = hd ?cs # tl ?cs" by (simp add: corner_samples_def)
  have m: "map slice3 [pixel_at data W 0 0, pixel_at data W (W - 1) 0,
                pixel_at data W 0 (H - 1), pixel_at data W (W - 1) (H - 1)] = ?cs"
    by (simp add: corner_samples_def)
  have mc: "most_common_1 (Counter ?cs) =
      [(first_max (count_list ?cs) (hd ?cs) (tl ?cs),
        count_list ?cs (first_max (count_list ?cs) (hd ?cs) (tl ?cs)))]"
    using most_common_1_Counter[of "hd ?cs" "tl ?cs"] cs by simp
  show ?thesis
    unfolding detect_background_def corners_pixel_at[OF assms] bind_exc_def
    by (simp only: sum.case Let_def m mc getitem_single fst_conv)
qed

lemma detect_background_as_RGBA:
  "detect_background (map (as_RGBA img) data) sz = detect_background data sz"
  by (simp add: detect_background_def bind_exc_def corners_map slice3_as_RGBA comp_def
           split: sum.splits)

section \<open>A successful run of \<^verbatim>\<open>remove_background\<close>\<close>

lemma print_eq: "print w m = w\<lparr>stdout := stdout w @ [m]\<rparr>"
  by (simp add: print_def)

lemma remove_background_body_Inr:
  "remove_background_body w inp outp tol = (w', Inr r) \<longleftrightarrow>
     (\<exists>img0 bg. files w inp = Some (ImageFile img0) \<and>
        detect_background (img_data (ensure_RGBA img0)) (img_size (ensure_RGBA img0)) = Inr bg \<and>
        files w (resolve_output_path inp outp) \<noteq> Some Directory \<and>
        \<not> write_fails w (resolve_output_path inp outp) \<and> r \<and>
        w' = w\<lparr>files := (files w)(resolve_output_path inp outp \<mapsto>
                  ImageFile (written (putdata (ensure_RGBA img0)
                     (fst (pixel_loop bg tol (img_data (ensure_RGBA img0)) [] 0))))),
               stdout := stdout w @
                 [MsgOriginalSize (img_size img0), MsgOriginalMode (img_mode img0),
                  MsgDetectedBackground bg, MsgSuccess,
                  MsgPixelsChanged (snd (pixel_loop bg tol (img_data (ensure_RGBA img0)) [] 0)),
                  MsgOutputSaved (resolve_output_path inp outp)]\<rparr>)"
  unfolding remove_background_body_def Image_open_def save_def print_eq
  by (auto simp: Let_def split: option.splits node.splits sum.splits prod.splits)

lemma remove_background_body_missing:
  "files w inp = None \<Longrightarrow> remove_background_body w inp outp tol = (w, Inl FileNotFoundError)"
  by (simp add: remove_background_body_def Image_open_def)

lemma remove_background_True_body:
  "remove_background w inp outp tol = (w', True) \<longleftrightarrow>
   remove_background_body w inp outp tol = (w', Inr True)"
proof (cases "files w inp")
  case None
  then show ?thesis
    by (simp add: remove_background_def path_exists_def remove_background_body_missing)
next
  case (Some f)
  then have ex: "path_exists w inp" by (simp add: path_exists_def)
  obtain w1 r where b: "remove_background_body w inp outp tol = (w1, r)"
    by (cases "remove_background_body w inp outp tol")
  show ?thesis
    using ex b by (cases r) (auto simp: remove_background_def)
qed

lemma remove_background_True:
  "remove_background w inp outp tol = (w', True) \<longleftrightarrow>
     (\<exists>img0 bg. files w inp = Some (ImageFile img0) \<and>
        detect_background (img_data (ensure_RGBA img0)) (img_size (ensure_RGBA img0)) = Inr bg \<and>
        files w (resolve_output_path inp outp) \<noteq> Some Directory \<and>
        \<not> write_fails w (resolve_output_path inp outp) \<and>
        w' = w\<lparr>files := (files w)(resolve_output_path inp outp \<mapsto>
                  ImageFile (written (putdata (ensure_RGBA img0)
                     (fst (pixel_loop bg tol (img_data (ensure_RGBA img0)) [] 0))))),
               stdout := stdout w @
                 [MsgOriginalSize (img_size img0), MsgOriginalMode (img_mode img0),
                  MsgDetectedBackground bg, MsgSuccess,
                  MsgPixelsChanged (snd (pixel_loop bg tol (img_data (ensure_RGBA img0)) [] 0)),
                  MsgOutputSaved (resolve_output_path inp outp)]\<rparr>)"
  unfolding remove_background_True_body remove_background_body_Inr by simp

lemma ensure_RGBA_size: "img_size (ensure_RGBA img) = img_size img"
  by (simp add: ensure_RGBA_def convert_RGBA_def)

lemma detect_background_ensure_RGBA:
  "detect_background (img_data (ensure_RGBA img)) (img_size (ensure_RGBA img)) =
   detect_background (img_data img) (img_size img)"
  by (simp add: ensure_RGBA_data ensure_RGBA_size detect_background_as_RGBA)

lemma pixel_loop_ensure_RGBA:
  "pixel_loop bg tol (img_data (ensure_RGBA img)) [] 0 =
     (map (\<lambda>p. appended bg tol (as_RGBA img p)) (img_data img),
      length (filter (near bg tol) (img_data img)))"
proof -
  have "filter (near bg tol) (map (as_RGBA img) xs) = map (as_RGBA img) (filter (near bg tol) xs)"
    for xs
    by (simp add: filter_map comp_def near_as_RGBA)
  then show ?thesis
    unfolding pixel_loop_acc ensure_RGBA_data by (simp add: comp_def)
qed

lemma remove_background_True_iff:
  "remove_background w inp outp tol = (w', True) \<longleftrightarrow>
     (\<exists>img bg. files w inp = Some (ImageFile img) \<and>
        detect_background (img_data img) (img_size img) = Inr bg \<and>
        files w (resolve_output_path inp outp) \<noteq> Some Directory \<and>
        \<not> write_fails w (resolve_output_path inp outp) \<and>
        w' = w\<lparr>files := (files w)(resolve_output_path inp outp \<mapsto>
                  ImageFile (written (putdata (ensure_RGBA img) (map (\<lambda>p. appended bg tol (as_RGBA img p)) (img_data img))))),
               stdout := stdout w @
                 [MsgOriginalSize (img_size img), MsgOriginalMode (img_mode img),
                  MsgDetectedBackground bg, MsgSuccess,
                  MsgPixelsChanged (length (filter (near bg tol) (img_data img))),
                  MsgOutputSaved (resolve_output_path inp outp)]\<rparr>)"
  unfolding remove_background_True detect_background_ensure_RGBA pixel_loop_ensure_RGBA
  by simp

section \<open>The threshold of the classification\<close>

text \<open>
  C5: the threshold is inclusive. A pixel whose distance from the background colour is
  exactly the tolerance comes out with alpha 0 and its colour channels; a pixel whose
  distance is the tolerance plus one comes out with the alpha it had (255 for a pixel
  of three channels).
\<close>

theorem threshold_boundary:
  assumes "pixel_loop bg_color tolerance data [] 0 = (new_data, pixels_changed)"
      and "i < length data"
  shows "(color_distance (slice3 (data ! i)) bg_color = tolerance \<longrightarrow>
            new_data ! i =
              (case data ! i of RGB r g b \<Rightarrow> RGBA r g b 0 | RGBA r g b a \<Rightarrow> RGBA r g b 0)) \<and>
         (color_distance (slice3 (data ! i)) bg_color = tolerance + 1 \<longrightarrow>
            new_data ! i =
              (case data ! i of RGB r g b \<Rightarrow> RGBA r g b 255 | RGBA r g b a \<Rightarrow> RGBA r g b a))"
proof -
  from assms have nd: "new_data ! i = appended bg_color tolerance (data ! i)"
    by (auto simp: pixel_loop_acc)
  show ?thesis
    unfolding nd by (cases "data ! i") (simp_all add: appended_def)
qed

theorem threshold_boundary_witness:
  "pixel_loop (0, 0, 0) 30 [RGBA 10 10 10 200, RGBA 10 10 11 200] [] 0 =
     ([RGBA 10 10 10 0, RGBA 10 10 11 200], 1) \<and>
   color_distance (slice3 ([RGBA 10 10 10 200, RGBA 10 10 11 200] ! 0)) (0, 0, 0) = 30 \<and>
   [RGBA 10 10 10 0, RGBA 10 10 11 200] ! 0 = RGBA 10 10 10 0 \<and>
   color_distance (slice3 ([RGBA 10 10 10 200, RGBA 10 10 11 200] ! 1)) (0, 0, 0) = 30 + 1 \<and>
   [RGBA 10 10 10 0, RGBA 10 10 11 200] ! 1 = RGBA 10 10 11 200"
  using threshold_boundary [of "(0, 0, 0)" 30 "[RGBA 10 10 10 200, RGBA 10 10 11 200]"
          "[RGBA 10 10 10 0, RGBA 10 10 11 200]" 1 0]
        threshold_boundary [of "(0, 0, 0)" 30 "[RGBA 10 10 10 200, RGBA 10 10 11 200]"
          "[RGBA 10 10 10 0, RGBA 10 10 11 200]" 1 1]
  by (simp add: color_distance_def)

section \<open>Further facts about a run of \<^verbatim>\<open>remove_background\<close>\<close>

lemma remove_background_TrueE:
  assumes "remove_background w inp outp tol = (w', True)"
  obtains img bg where
    "files w inp = Some (ImageFile img)"
    "detect_background (img_data img) (img_size img) = Inr bg"
    "files w (resolve_output_path inp outp) \<noteq> Some Directory \<and>
        \<not> write_fails w (resolve_output_path inp outp)"
    "files w' = (files w)(resolve_output_path inp outp \<mapsto>
        ImageFile (written (putdata (ensure_RGBA img) (map (\<lambda>p. appended bg tol (as_RGBA img p)) (img_data img)))))"
    "stdout w' = stdout w @
       [MsgOriginalSize (img_size img), MsgOriginalMode (img_mode img),
        MsgDetectedBackground bg, MsgSuccess,
        MsgPixelsChanged (length (filter (near bg tol) (img_data img))),
        MsgOutputSaved (resolve_output_path inp outp)]"
proof -
  from assms obtain img bg where
    f: "files w inp = Some (ImageFile img)" and
    d: "detect_background (img_data img) (img_size img) = Inr bg" and
    wf: "files w (resolve_output_path inp outp) \<noteq> Some Directory \<and>
        \<not> write_fails w (resolve_output_path inp outp)" and
    w': "w' = w\<lparr>files := (files w)(resolve_output_path inp outp \<mapsto>
                  ImageFile (written (putdata (ensure_RGBA img) (map (\<lambda>p. appended bg tol (as_RGBA img p)) (img_data img))))),
               stdout := stdout w @
                 [MsgOriginalSize (img_size img), MsgOriginalMode (img_mode img),
                  MsgDetectedBackground bg, MsgSuccess,
                  MsgPixelsChanged (length (filter (near bg tol) (img_data img))),
                  MsgOutputSaved (resolve_output_path inp outp)]\<rparr>"
    unfolding remove_background_True_iff by blast
  show thesis
    by (rule that[OF f d wf]) (simp_all add: w')
qed

lemma putdata_simps:
  "img_data (putdata img nd) = nd" "img_size (putdata img nd) = img_size img"
  "img_mode (putdata img nd) = img_mode img"
  "img_data (written img) = img_data img" "img_size (written img) = img_size img"
  "img_mode (written img) = img_mode img"
  by (simp_all add: putdata_def written_def)

lemma remove_background_body_Inl:
  "remove_background_body w inp outp tol = (w', Inl e) \<Longrightarrow> files w' = files w"
  unfolding remove_background_body_def Image_open_def save_def print_eq
  by (auto simp: Let_def split: option.splits node.splits sum.splits prod.splits if_splits)

lemma remove_background_False:
  assumes "remove_background w inp outp tol = (w', False)"
  shows "files w' = files w"
proof (cases "path_exists w inp")
  case False
  with assms show ?thesis by (auto simp: remove_background_def print_eq)
next
  case True
  obtain w1 r where b: "remove_background_body w inp outp tol = (w1, r)"
    by (cases "remove_background_body w inp outp tol")
  show ?thesis
  proof (cases r)
    case (Inl e)
    with b True assms have "w' = print w1 (MsgErrorProcessing e)"
      by (simp add: remove_background_def)
    moreover from b Inl have "files w1 = files w" by (simp add: remove_background_body_Inl)
    ultimately show ?thesis by (simp add: print_eq)
  next
    case (Inr v)
    with b True assms have "v = False" by (simp add: remove_background_def)
    with b Inr show ?thesis by (simp add: remove_background_body_Inr)
  qed
qed

lemma splitext_loop_concat:
  "splitext_loop p i d = (base, ext) \<Longrightarrow> base @ ext = p"
proof (induction p i d rule: splitext_loop.induct)
  case (1 p filenameIndex dotIndex)
  show ?case
  proof (cases "filenameIndex < dotIndex")
    case False
    with "1.prems" show ?thesis by (simp add: splitext_loop.simps[of p filenameIndex dotIndex])
  next
    case True
    show ?thesis
    proof (cases "take 1 (drop (nat filenameIndex) p) \<noteq> ''.''")
      case ne: True
      with True "1.prems" show ?thesis
        by (auto simp: splitext_loop.simps[of p filenameIndex dotIndex])
    next
      case eq: False
      with True "1.prems" have "splitext_loop p (filenameIndex + 1) dotIndex = (base, ext)"
        by (simp add: splitext_loop.simps[of p filenameIndex dotIndex])
      with "1.IH"[OF True] eq show ?thesis by simp
    qed
  qed
qed

lemma splitext_concat: "splitext p = (base, ext) \<Longrightarrow> base @ ext = p"
  by (auto simp: splitext_def Let_def split: if_splits dest: splitext_loop_concat)

lemma default_output_differs:
  assumes "splitext p = (base, ext)"
  shows "base @ ''_transparent'' @ ext \<noteq> p"
proof
  assume "base @ ''_transparent'' @ ext = p"
  then have "length (base @ ''_transparent'' @ ext) = length p" by simp
  moreover have "length (base @ ext) = length p" using splitext_concat[OF assms] by simp
  ultimately show False by simp
qed

lemma rfind_last:
  assumes "c \<in> set p"
  shows "\<exists>ys zs. p = ys @ c # zs \<and> c \<notin> set zs \<and> rfind p c = int (length ys)"
proof -
  from split_list_last[OF assms] obtain ys zs where p: "p = ys @ c # zs" and z: "c \<notin> set zs"
    by blast
  have "takeWhile (\<lambda>x. x \<noteq> c) (rev p) = rev zs"
    unfolding p using z by (auto simp: takeWhile_tail)
  then have "rfind p c = int (length ys)"
    using assms by (simp add: rfind_def p)
  with p z show ?thesis by blast
qed

lemma rfind_absent: "c \<notin> set p \<Longrightarrow> rfind p c = - 1"
  by (simp add: rfind_def)

lemma rfind_ge_minus_one: "- 1 \<le> rfind p c"
proof (cases "c \<in> set p")
  case True
  from rfind_last[OF this] show ?thesis by auto
next
  case False
  then show ?thesis by (simp add: rfind_absent)
qed

lemma rfind_upper:
  assumes "i < length p" and "p ! i = c"
  shows "int i \<le> rfind p c"
proof -
  from assms have "c \<in> set p" by auto
  from rfind_last[OF this] obtain ys zs where
    p: "p = ys @ c # zs" and z: "c \<notin> set zs" and r: "rfind p c = int (length ys)" by blast
  have "i \<le> length ys"
  proof (rule ccontr)
    assume "\<not> i \<le> length ys"
    then have "p ! i = zs ! (i - length ys - 1)" "i - length ys - 1 < length zs"
      using assms(1) by (auto simp: p nth_append nth_Cons')
    with assms(2) z show False by (metis nth_mem)
  qed
  with r show ?thesis by simp
qed

lemma splitext_loop_ext:
  "splitext_loop p i d = (base, ext) \<Longrightarrow> ext = [] \<or> ext = drop (nat d) p"
proof (induction p i d rule: splitext_loop.induct)
  case (1 p filenameIndex dotIndex)
  from "1.prems" show ?case
    by (subst (asm) splitext_loop.simps) (auto split: if_splits dest: "1.IH"[rotated -1])
qed

lemma splitext_ext_shape:
  assumes "splitext p = (base, ext)"
  shows "ext = [] \<or>
         (\<exists>zs. ext = CHR ''.'' # zs \<and> CHR ''.'' \<notin> set zs \<and> CHR ''/'' \<notin> set zs)"
proof (cases "ext = []")
  case True
  then show ?thesis by simp
next
  case False
  let ?sep = "rfind p CHR ''/''" and ?dot = "rfind p CHR ''.''"
  from assms False have gt: "?dot > ?sep" and
    loop: "splitext_loop p (?sep + 1) ?dot = (base, ext)"
    by (auto simp: splitext_def Let_def split: if_splits)
  from splitext_loop_ext[OF loop] False have ext: "ext = drop (nat ?dot) p" by simp
  from gt rfind_ge_minus_one[of p "CHR ''/''"] have "0 \<le> ?dot" by simp
  then have "CHR ''.'' \<in> set p" using rfind_absent[of "CHR ''.''" p] by fastforce
  from rfind_last[OF this] obtain ys zs where
    p: "p = ys @ CHR ''.'' # zs" and z: "CHR ''.'' \<notin> set zs" and r: "?dot = int (length ys)"
    by blast
  have e: "ext = CHR ''.'' # zs" unfolding ext r by (simp add: p)
  have "CHR ''/'' \<notin> set zs"
  proof
    assume "CHR ''/'' \<in> set zs"
    then obtain j where j: "j < length zs" "zs ! j = CHR ''/''" by (auto simp: in_set_conv_nth)
    then have "length ys + 1 + j < length p" "p ! (length ys + 1 + j) = CHR ''/''"
      by (auto simp: p nth_append)
    from rfind_upper[OF this] have "int (length ys + 1 + j) \<le> ?sep" .
    with gt r show False by simp
  qed
  with e z show ?thesis by blast
qed

lemma remove_background_succeeds:
  assumes "files w inp = Some (ImageFile img)"
      and "img_size img = (W, H)" and "length (img_data img) = W * H"
      and "1 \<le> W" and "1 \<le> H"
      and "files w (resolve_output_path inp outp) \<noteq> Some Directory"
      and "\<not> write_fails w (resolve_output_path inp outp)"
  shows "snd (remove_background w inp outp tol) = True"
proof -
  from detect_background_first_max[OF assms(3,4,5)] obtain bg where
    "detect_background (img_data img) (img_size img) = Inr bg"
    unfolding assms(2) by blast
  with assms(1,6,7) have "\<exists>w'. remove_background w inp outp tol = (w', True)"
    unfolding remove_background_True_iff by blast
  then show ?thesis by auto
qed

section \<open>The rule for each pixel\<close>

text \<open>
  C1, as the code has it: when \<^verbatim>\<open>remove_background\<close> succeeds, the image it saves
  has, for every pixel of the input image, the result of this rule. With the L1
  distance of the pixel's colour channels from the detected background colour at most
  the tolerance, the pixel is \<open>(r, g, b, 0)\<close>, whatever alpha it had. Otherwise it has
  the alpha that the conversion to RGBA gave it: its own alpha for a pixel of four
  channels; for a pixel of three channels 255, or 0 if the image is not of mode RGBA
  and declares the pixel's colour as its transparent colour.
\<close>

theorem pixel_rule:
  assumes "remove_background w input_path output_path tolerance = (w', True)"
  shows "\<exists>img br bgr bb out.
           files w input_path = Some (ImageFile img) \<and>
           detect_background (img_data img) (img_size img) = Inr (br, bgr, bb) \<and>
           files w' (resolve_output_path input_path output_path) = Some (ImageFile out) \<and>
           length (img_data out) = length (img_data img) \<and>
           (\<forall>i<length (img_data img).
              img_data out ! i =
                (case img_data img ! i of
                   RGB r g b \<Rightarrow>
                     if \<bar>r - br\<bar> + \<bar>g - bgr\<bar> + \<bar>b - bb\<bar> \<le> tolerance
                     then RGBA r g b 0
                     else if img_mode img \<noteq> ModeRGBA \<and> img_transparency img = Some (r, g, b)
                     then RGBA r g b 0
                     else RGBA r g b 255
                 | RGBA r g b a \<Rightarrow>
                     if \<bar>r - br\<bar> + \<bar>g - bgr\<bar> + \<bar>b - bb\<bar> \<le> tolerance
                     then RGBA r g b 0 else RGBA r g b a))"
proof -
  from assms obtain img bg where
    f: "files w input_path = Some (ImageFile img)" and
    d: "detect_background (img_data img) (img_size img) = Inr bg" and
    fs: "files w' = (files w)(resolve_output_path input_path output_path \<mapsto>
        ImageFile (written (putdata (ensure_RGBA img)
          (map (\<lambda>p. appended bg tolerance (as_RGBA img p)) (img_data img)))))"
    by (rule remove_background_TrueE)
  obtain br bgr bb where bg: "bg = (br, bgr, bb)" by (cases bg)
  let ?out = "written (putdata (ensure_RGBA img)
                (map (\<lambda>p. appended bg tolerance (as_RGBA img p)) (img_data img)))"
  have 1: "files w' (resolve_output_path input_path output_path) = Some (ImageFile ?out)"
    by (simp add: fs)
  have 2: "img_data ?out = map (\<lambda>p. appended bg tolerance (as_RGBA img p)) (img_data img)"
    by (simp add: putdata_simps)
  have 3: "img_data ?out ! i =
                (case img_data img ! i of
                   RGB r g b \<Rightarrow>
                     if \<bar>r - br\<bar> + \<bar>g - bgr\<bar> + \<bar>b - bb\<bar> \<le> tolerance
                     then RGBA r g b 0
                     else if img_mode img \<noteq> ModeRGBA \<and> img_transparency img = Some (r, g, b)
                     then RGBA r g b 0
                     else RGBA r g b 255
                 | RGBA r g b a \<Rightarrow>
                     if \<bar>r - br\<bar> + \<bar>g - bgr\<bar> + \<bar>b - bb\<bar> \<le> tolerance
                     then RGBA r g b 0 else RGBA r g b a)" if "i < length (img_data img)" for i
    unfolding 2 using that
    by (cases "img_data img ! i") (simp_all add: bg appended_cases as_RGBA_def)
  have 4: "length (img_data ?out) = length (img_data img)" unfolding 2 by simp
  from f d[unfolded bg] 1 3 4 show ?thesis by blast
qed

theorem pixel_rule_witness:
  "remove_background (world_with ''a.png'' sample_trns) ''a.png'' None 30 =
     (fst (remove_background (world_with ''a.png'' sample_trns) ''a.png'' None 30), True) \<and>
   files (fst (remove_background (world_with ''a.png'' sample_trns) ''a.png'' None 30))
     ''a_transparent.png'' =
       Some (ImageFile \<lparr>img_mode = ModeRGBA, img_size = (2, 1),
               img_data = [RGBA 255 255 255 0, RGBA 0 0 0 0],
               img_transparency = None\<rparr>) \<and>
   files (fst (remove_background (world_with ''a.png'' sample_rgba) ''a.png'' None 30))
     ''a_transparent.png'' =
       Some (ImageFile \<lparr>img_mode = ModeRGBA, img_size = (2, 1),
               img_data = [RGBA 255 255 255 0, RGBA 0 0 0 77],
               img_transparency = None\<rparr>) \<and>
   files (fst (remove_background (world_with ''a.png'' sample_rgb) ''a.png'' None 30))
     ''a_transparent.png'' =
       Some (ImageFile \<lparr>img_mode = ModeRGBA, img_size = (2, 1),
               img_data = [RGBA 255 255 255 0, RGBA 0 0 0 255],
               img_transparency = None\<rparr>) \<and>
   (\<exists>img br bgr bb out.
           files (world_with ''a.png'' sample_trns) ''a.png'' = Some (ImageFile img) \<and>
           detect_background (img_data img) (img_size img) = Inr (br, bgr, bb) \<and>
           files (fst (remove_background (world_with ''a.png'' sample_trns) ''a.png'' None 30))
             (resolve_output_path ''a.png'' None) = Some (ImageFile out) \<and>
           length (img_data out) = length (img_data img) \<and>
           (\<forall>i<length (img_data img).
              img_data out ! i =
                (case img_data img ! i of
                   RGB r g b \<Rightarrow>
                     if \<bar>r - br\<bar> + \<bar>g - bgr\<bar> + \<bar>b - bb\<bar> \<le> 30
                     then RGBA r g b 0
                     else if img_mode img \<noteq> ModeRGBA \<and> img_transparency img = Some (r, g, b)
                     then RGBA r g b 0
                     else RGBA r g b 255
                 | RGBA r g b a \<Rightarrow>
                     if \<bar>r - br\<bar> + \<bar>g - bgr\<bar> + \<bar>b - bb\<bar> \<le> 30
                     then RGBA r g b 0 else RGBA r g b a)))"
proof -
  have "snd (remove_background (world_with ''a.png'' sample_trns) ''a.png'' None 30) = True"
    by code_simp
  then have h: "remove_background (world_with ''a.png'' sample_trns) ''a.png'' None 30 =
     (fst (remove_background (world_with ''a.png'' sample_trns) ''a.png'' None 30), True)"
    by (metis prod.collapse)
  have c: "files (fst (remove_background (world_with ''a.png'' sample_trns) ''a.png'' None 30))
     ''a_transparent.png'' =
       Some (ImageFile \<lparr>img_mode = ModeRGBA, img_size = (2, 1),
               img_data = [RGBA 255 255 255 0, RGBA 0 0 0 0],
               img_transparency = None\<rparr>)"
    by code_simp
  have c2: "files (fst (remove_background (world_with ''a.png'' sample_rgba) ''a.png'' None 30))
     ''a_transparent.png'' =
       Some (ImageFile \<lparr>img_mode = ModeRGBA, img_size = (2, 1),
               img_data = [RGBA 255 255 255 0, RGBA 0 0 0 77],
               img_transparency = None\<rparr>)"
    by code_simp
  have c3: "files (fst (remove_background (world_with ''a.png'' sample_rgb) ''a.png'' None 30))
     ''a_transparent.png'' =
       Some (ImageFile \<lparr>img_mode = ModeRGBA, img_size = (2, 1),
               img_data = [RGBA 255 255 255 0, RGBA 0 0 0 255],
               img_transparency = None\<rparr>)"
    by code_simp
  from h c c2 c3 pixel_rule [OF h] show ?thesis by (intro conjI)
qed

text \<open>
  A pixel far from the background colour, in an image without alpha channel, that does
  not come out with alpha 255: the image is of mode RGB and declares black as its
  transparent colour, the detected background colour is white, the second pixel is black
  at distance 765, beyond the tolerance 30, and it is saved with alpha 0.
\<close>

theorem far_pixel_without_alpha_not_opaque:
  "files (world_with ''a.png'' sample_trns) ''a.png'' = Some (ImageFile sample_trns) \<and>
   img_mode sample_trns = ModeRGB \<and>
   img_data sample_trns ! 1 = RGB 0 0 0 \<and>
   detect_background (img_data sample_trns) (img_size sample_trns) = Inr (255, 255, 255) \<and>
   color_distance (slice3 (img_data sample_trns ! 1)) (255, 255, 255) = 765 \<and>
   \<not> color_distance (slice3 (img_data sample_trns ! 1)) (255, 255, 255) \<le> 30 \<and>
   snd (remove_background (world_with ''a.png'' sample_trns) ''a.png'' None 30) = True \<and>
   files (fst (remove_background (world_with ''a.png'' sample_trns) ''a.png'' None 30))
     ''a_transparent.png'' =
       Some (ImageFile \<lparr>img_mode = ModeRGBA, img_size = (2, 1),
               img_data = [RGBA 255 255 255 0, RGBA 0 0 0 0],
               img_transparency = None\<rparr>) \<and>
   RGBA 0 0 0 0 \<noteq> RGBA 0 0 0 255"
  by code_simp

section \<open>Colour channels and size are kept\<close>

text \<open>
  C4: when \<^verbatim>\<open>remove_background\<close> succeeds, the saved image has the size of the input
  image and as many pixels, and every pixel has the red, green and blue channels of
  the input pixel at the same place.
\<close>

theorem rgb_and_size_preserved:
  assumes "remove_background w input_path output_path tolerance = (w', True)"
  shows "\<exists>img out.
           files w input_path = Some (ImageFile img) \<and>
           files w' (resolve_output_path input_path output_path) = Some (ImageFile out) \<and>
           img_size out = img_size img \<and>
           length (img_data out) = length (img_data img) \<and>
           (\<forall>i<length (img_data img). slice3 (img_data out ! i) = slice3 (img_data img ! i))"
proof -
  from assms obtain img bg where
    f: "files w input_path = Some (ImageFile img)" and
    fs: "files w' = (files w)(resolve_output_path input_path output_path \<mapsto>
        ImageFile (written (putdata (ensure_RGBA img) (map (\<lambda>p. appended bg tolerance (as_RGBA img p)) (img_data img)))))"
    by (rule remove_background_TrueE)
  let ?out = "written (putdata (ensure_RGBA img) (map (\<lambda>p. appended bg tolerance (as_RGBA img p)) (img_data img)))"
  have "files w' (resolve_output_path input_path output_path) = Some (ImageFile ?out)"
    by (simp add: fs)
  moreover have "img_size ?out = img_size img"
    by (simp add: putdata_simps ensure_RGBA_size)
  moreover have "length (img_data ?out) = length (img_data img)"
    by (simp add: putdata_simps)
  moreover have "\<forall>i<length (img_data img). slice3 (img_data ?out ! i) = slice3 (img_data img ! i)"
    by (simp add: putdata_simps slice3_appended slice3_as_RGBA)
  ultimately show ?thesis using f by blast
qed

theorem rgb_and_size_preserved_witness:
  "remove_background (world_with ''a.png'' sample_rgb) ''a.png'' None 30 =
     (fst (remove_background (world_with ''a.png'' sample_rgb) ''a.png'' None 30), True) \<and>
   files (fst (remove_background (world_with ''a.png'' sample_rgb) ''a.png'' None 30))
     ''a_transparent.png'' =
       Some (ImageFile \<lparr>img_mode = ModeRGBA, img_size = (2, 1),
               img_data = [RGBA 255 255 255 0, RGBA 0 0 0 255],
               img_transparency = None\<rparr>) \<and>
   (\<exists>img out.
           files (world_with ''a.png'' sample_rgb) ''a.png'' = Some (ImageFile img) \<and>
           files (fst (remove_background (world_with ''a.png'' sample_rgb) ''a.png'' None 30))
             (resolve_output_path ''a.png'' None) = Some (ImageFile out) \<and>
           img_size out = img_size img \<and>
           length (img_data out) = length (img_data img) \<and>
           (\<forall>i<length (img_data img). slice3 (img_data out ! i) = slice3 (img_data img ! i)))"
proof -
  have "snd (remove_background (world_with ''a.png'' sample_rgb) ''a.png'' None 30) = True"
    by code_simp
  then have h: "remove_background (world_with ''a.png'' sample_rgb) ''a.png'' None 30 =
     (fst (remove_background (world_with ''a.png'' sample_rgb) ''a.png'' None 30), True)"
    by (metis prod.collapse)
  have c: "files (fst (remove_background (world_with ''a.png'' sample_rgb) ''a.png'' None 30))
     ''a_transparent.png'' =
       Some (ImageFile \<lparr>img_mode = ModeRGBA, img_size = (2, 1),
               img_data = [RGBA 255 255 255 0, RGBA 0 0 0 255],
               img_transparency = None\<rparr>)"
    by code_simp
  from h c rgb_and_size_preserved [OF h] show ?thesis by blast
qed

section \<open>The count of pixels made transparent\<close>

text \<open>
  C7, as the code has it: \<^verbatim>\<open>remove_background\<close> returns only the truth value of its
  success. When it succeeds, the messages it prints are the size and mode of the
  input, the detected background colour, the success line, the count, and the output
  path; the count is the number of pixels of the input image whose L1 distance from
  the detected background colour is at most the tolerance.
\<close>

theorem count_is_printed:
  assumes "remove_background w input_path output_path tolerance = (w', True)"
  shows "\<exists>img bg.
           files w input_path = Some (ImageFile img) \<and>
           detect_background (img_data img) (img_size img) = Inr bg \<and>
           new_messages w w' =
             [MsgOriginalSize (img_size img), MsgOriginalMode (img_mode img),
              MsgDetectedBackground bg, MsgSuccess,
              MsgPixelsChanged
                (length (filter (\<lambda>item. color_distance (slice3 item) bg \<le> tolerance)
                   (img_data img))),
              MsgOutputSaved (resolve_output_path input_path output_path)]"
proof -
  from assms obtain img bg where
    f: "files w input_path = Some (ImageFile img)" and
    d: "detect_background (img_data img) (img_size img) = Inr bg" and
    out: "stdout w' = stdout w @
       [MsgOriginalSize (img_size img), MsgOriginalMode (img_mode img),
        MsgDetectedBackground bg, MsgSuccess,
        MsgPixelsChanged (length (filter (near bg tolerance) (img_data img))),
        MsgOutputSaved (resolve_output_path input_path output_path)]"
    by (rule remove_background_TrueE)
  have "near bg tolerance = (\<lambda>item. color_distance (slice3 item) bg \<le> tolerance)"
    by (simp add: near_def fun_eq_iff)
  with out have "new_messages w w' =
             [MsgOriginalSize (img_size img), MsgOriginalMode (img_mode img),
              MsgDetectedBackground bg, MsgSuccess,
              MsgPixelsChanged
                (length (filter (\<lambda>item. color_distance (slice3 item) bg \<le> tolerance)
                   (img_data img))),
              MsgOutputSaved (resolve_output_path input_path output_path)]"
    by (simp add: new_messages_def)
  with f d show ?thesis by blast
qed

theorem count_is_printed_witness:
  "remove_background (world_with ''a.png'' sample_near) ''a.png'' None 30 =
     (fst (remove_background (world_with ''a.png'' sample_near) ''a.png'' None 30), True) \<and>
   new_messages (world_with ''a.png'' sample_near)
     (fst (remove_background (world_with ''a.png'' sample_near) ''a.png'' None 30)) =
       [MsgOriginalSize (2, 1), MsgOriginalMode ModeRGB, MsgDetectedBackground (255, 255, 255),
        MsgSuccess, MsgPixelsChanged 2, MsgOutputSaved ''a_transparent.png''] \<and>
   (\<exists>img bg.
           files (world_with ''a.png'' sample_near) ''a.png'' = Some (ImageFile img) \<and>
           detect_background (img_data img) (img_size img) = Inr bg \<and>
           new_messages (world_with ''a.png'' sample_near)
             (fst (remove_background (world_with ''a.png'' sample_near) ''a.png'' None 30)) =
             [MsgOriginalSize (img_size img), MsgOriginalMode (img_mode img),
              MsgDetectedBackground bg, MsgSuccess,
              MsgPixelsChanged
                (length (filter (\<lambda>item. color_distance (slice3 item) bg \<le> 30)
                   (img_data img))),
              MsgOutputSaved (resolve_output_path ''a.png'' None)])"
proof -
  have "snd (remove_background (world_with ''a.png'' sample_near) ''a.png'' None 30) = True"
    by code_simp
  then have h: "remove_background (world_with ''a.png'' sample_near) ''a.png'' None 30 =
     (fst (remove_background (world_with ''a.png'' sample_near) ''a.png'' None 30), True)"
    by (metis prod.collapse)
  have c: "new_messages (world_with ''a.png'' sample_near)
     (fst (remove_background (world_with ''a.png'' sample_near) ''a.png'' None 30)) =
       [MsgOriginalSize (2, 1), MsgOriginalMode ModeRGB, MsgDetectedBackground (255, 255, 255),
        MsgSuccess, MsgPixelsChanged 2, MsgOutputSaved ''a_transparent.png'']"
    by code_simp
  from h c count_is_printed [OF h] show ?thesis by blast
qed

text \<open>
  The value returned does not hold the count: two runs that count one pixel and two
  pixels return the same value.
\<close>

theorem count_not_returned:
  "snd (remove_background (world_with ''a.png'' sample_rgb) ''a.png'' None 30) = True \<and>
   snd (remove_background (world_with ''a.png'' sample_near) ''a.png'' None 30) = True \<and>
   new_messages (world_with ''a.png'' sample_rgb)
     (fst (remove_background (world_with ''a.png'' sample_rgb) ''a.png'' None 30)) ! 4 =
       MsgPixelsChanged 1 \<and>
   new_messages (world_with ''a.png'' sample_near)
     (fst (remove_background (world_with ''a.png'' sample_near) ''a.png'' None 30)) ! 4 =
       MsgPixelsChanged 2"
  by code_simp

section \<open>Two runs on the same input\<close>

text \<open>
  C8: two successful calls of \<^verbatim>\<open>remove_background\<close> with the same paths and tolerance,
  in two worlds that hold the same image at the input path and may differ in all else
  (other files, what was printed before), save the same image and print the same
  messages, among them the same count. In the saved image, two pixels that are equal in
  the input are equal in the output. In the pixel loop, the pixel appended for an input
  pixel is the same in any two data sequences and at any two places, for the same
  background colour and tolerance.
\<close>

theorem same_input_same_output:
  assumes "files w1 input_path = Some (ImageFile img)"
      and "files w2 input_path = Some (ImageFile img)"
      and "remove_background w1 input_path output_path tolerance = (w1', True)"
      and "remove_background w2 input_path output_path tolerance = (w2', True)"
  shows "files w1' (resolve_output_path input_path output_path) =
           files w2' (resolve_output_path input_path output_path) \<and>
         new_messages w1 w1' = new_messages w2 w2' \<and>
         (\<exists>out. files w1' (resolve_output_path input_path output_path) = Some (ImageFile out) \<and>
            (\<forall>i<length (img_data img). \<forall>j<length (img_data img).
               img_data img ! i = img_data img ! j \<longrightarrow> img_data out ! i = img_data out ! j)) \<and>
         (\<forall>bg data data' k l.
            k < length data \<longrightarrow> l < length data' \<longrightarrow> data ! k = data' ! l \<longrightarrow>
            fst (pixel_loop bg tolerance data [] 0) ! k =
              fst (pixel_loop bg tolerance data' [] 0) ! l)"
proof -
  from assms(3) obtain img1 bg1 where
    f1: "files w1 input_path = Some (ImageFile img1)" and
    d1: "detect_background (img_data img1) (img_size img1) = Inr bg1" and
    fs1: "files w1' = (files w1)(resolve_output_path input_path output_path \<mapsto>
        ImageFile (written (putdata (ensure_RGBA img1) (map (\<lambda>p. appended bg1 tolerance (as_RGBA img1 p)) (img_data img1)))))" and
    o1: "stdout w1' = stdout w1 @
       [MsgOriginalSize (img_size img1), MsgOriginalMode (img_mode img1),
        MsgDetectedBackground bg1, MsgSuccess,
        MsgPixelsChanged (length (filter (near bg1 tolerance) (img_data img1))),
        MsgOutputSaved (resolve_output_path input_path output_path)]"
    by (rule remove_background_TrueE)
  from assms(4) obtain img2 bg2 where
    f2: "files w2 input_path = Some (ImageFile img2)" and
    d2: "detect_background (img_data img2) (img_size img2) = Inr bg2" and
    fs2: "files w2' = (files w2)(resolve_output_path input_path output_path \<mapsto>
        ImageFile (written (putdata (ensure_RGBA img2) (map (\<lambda>p. appended bg2 tolerance (as_RGBA img2 p)) (img_data img2)))))" and
    o2: "stdout w2' = stdout w2 @
       [MsgOriginalSize (img_size img2), MsgOriginalMode (img_mode img2),
        MsgDetectedBackground bg2, MsgSuccess,
        MsgPixelsChanged (length (filter (near bg2 tolerance) (img_data img2))),
        MsgOutputSaved (resolve_output_path input_path output_path)]"
    by (rule remove_background_TrueE)
  from f1 f2 assms(1,2) have i: "img1 = img" "img2 = img" by simp_all
  with d1 d2 have b: "bg2 = bg1" by simp
  let ?out = "written (putdata (ensure_RGBA img) (map (\<lambda>p. appended bg1 tolerance (as_RGBA img p)) (img_data img)))"
  have A: "files w1' (resolve_output_path input_path output_path) =
           files w2' (resolve_output_path input_path output_path)"
    by (simp add: fs1 fs2 i b)
  have B: "new_messages w1 w1' = new_messages w2 w2'"
    by (simp add: new_messages_def o1 o2 i b)
  have C: "files w1' (resolve_output_path input_path output_path) = Some (ImageFile ?out)"
    by (simp add: fs1 i)
  have D: "\<forall>i<length (img_data img). \<forall>j<length (img_data img).
               img_data img ! i = img_data img ! j \<longrightarrow> img_data ?out ! i = img_data ?out ! j"
    by (simp add: putdata_simps)
  have E: "\<forall>bg data data' k l.
            k < length data \<longrightarrow> l < length data' \<longrightarrow> data ! k = data' ! l \<longrightarrow>
            fst (pixel_loop bg tolerance data [] 0) ! k =
              fst (pixel_loop bg tolerance data' [] 0) ! l"
    by (simp add: pixel_loop_acc)
  have "\<exists>out. files w1' (resolve_output_path input_path output_path) = Some (ImageFile out) \<and>
            (\<forall>i<length (img_data img). \<forall>j<length (img_data img).
               img_data img ! i = img_data img ! j \<longrightarrow> img_data out ! i = img_data out ! j)"
    using C D by blast
  then show ?thesis using A B E by (intro conjI)
qed

theorem same_input_same_output_witness:
  "files (world_with ''a.png'' sample_rgb) ''a.png'' = Some (ImageFile sample_rgb) \<and>
   files world_later ''a.png'' = Some (ImageFile sample_rgb) \<and>
   snd (remove_background (world_with ''a.png'' sample_rgb) ''a.png'' (Some ''b.png'') 30) = True \<and>
   snd (remove_background world_later ''a.png'' (Some ''b.png'') 30) = True \<and>
   files (fst (remove_background (world_with ''a.png'' sample_rgb) ''a.png'' (Some ''b.png'') 30))
      (resolve_output_path ''a.png'' (Some ''b.png'')) =
   files (fst (remove_background world_later ''a.png'' (Some ''b.png'') 30))
      (resolve_output_path ''a.png'' (Some ''b.png'')) \<and>
   new_messages (world_with ''a.png'' sample_rgb)
      (fst (remove_background (world_with ''a.png'' sample_rgb) ''a.png'' (Some ''b.png'') 30)) =
   new_messages world_later (fst (remove_background world_later ''a.png'' (Some ''b.png'') 30))"
proof -
  have f1: "files (world_with ''a.png'' sample_rgb) ''a.png'' = Some (ImageFile sample_rgb)"
    by (simp add: world_with_def)
  have f2: "files world_later ''a.png'' = Some (ImageFile sample_rgb)"
    by (simp add: world_later_def)
  have s1: "snd (remove_background (world_with ''a.png'' sample_rgb) ''a.png'' (Some ''b.png'') 30) = True"
    by code_simp
  have s2: "snd (remove_background world_later ''a.png'' (Some ''b.png'') 30) = True"
    by code_simp
  from s1 have h1: "remove_background (world_with ''a.png'' sample_rgb) ''a.png'' (Some ''b.png'') 30 =
     (fst (remove_background (world_with ''a.png'' sample_rgb) ''a.png'' (Some ''b.png'') 30), True)"
    by (metis prod.collapse)
  from s2 have h2: "remove_background world_later ''a.png'' (Some ''b.png'') 30 =
     (fst (remove_background world_later ''a.png'' (Some ''b.png'') 30), True)"
    by (metis prod.collapse)
  note r = same_input_same_output [OF f1 f2 h1 h2]
  show ?thesis
    using f1 f2 s1 s2 r [THEN conjunct1] r [THEN conjunct2, THEN conjunct1]
    by (intro conjI)
qed

section \<open>The output path when none is given\<close>

lemma default_output_path_facts:
  assumes "remove_background w input_path None tolerance = (w', r)"
      and "splitext input_path = (base, ext)"
  shows "base @ ext = input_path \<and>
         base @ ''_transparent'' @ ext \<noteq> input_path \<and>
         files w' input_path = files w input_path \<and>
         (\<forall>p. p \<noteq> base @ ''_transparent'' @ ext \<longrightarrow> files w' p = files w p) \<and>
         (r \<longrightarrow> (\<exists>img out. files w input_path = Some (ImageFile img) \<and>
                   files w' (base @ ''_transparent'' @ ext) = Some (ImageFile out) \<and>
                   img_size out = img_size img \<and>
                   length (img_data out) = length (img_data img)))"
proof -
  have tgt: "resolve_output_path input_path None = base @ ''_transparent'' @ ext"
    by (simp add: resolve_output_path_def assms(2))
  have ne: "base @ ''_transparent'' @ ext \<noteq> input_path"
    by (rule default_output_differs[OF assms(2)])
  show ?thesis
  proof (cases r)
    case False
    with assms(1) have "files w' = files w" by (simp add: remove_background_False)
    with False ne splitext_concat[OF assms(2)] show ?thesis by simp
  next
    case True
    with assms(1) have run: "remove_background w input_path None tolerance = (w', True)"
      by simp
    from run obtain img bg where
      f: "files w input_path = Some (ImageFile img)" and
      fs: "files w' = (files w)(resolve_output_path input_path None \<mapsto>
          ImageFile (written (putdata (ensure_RGBA img) (map (\<lambda>p. appended bg tolerance (as_RGBA img p)) (img_data img)))))"
      by (rule remove_background_TrueE)
    let ?out = "written (putdata (ensure_RGBA img) (map (\<lambda>p. appended bg tolerance (as_RGBA img p)) (img_data img)))"
    have 1: "files w' (base @ ''_transparent'' @ ext) = Some (ImageFile ?out)"
      by (simp add: fs tgt)
    have 2: "img_size ?out = img_size img" "length (img_data ?out) = length (img_data img)"
      by (simp_all add: putdata_simps ensure_RGBA_size)
    have 3: "files w' input_path = files w input_path"
      using ne by (simp add: fs tgt)
    have 4: "\<forall>p. p \<noteq> base @ ''_transparent'' @ ext \<longrightarrow> files w' p = files w p"
      by (simp add: fs tgt)
    have 5: "\<exists>img out. files w input_path = Some (ImageFile img) \<and>
                   files w' (base @ ''_transparent'' @ ext) = Some (ImageFile out) \<and>
                   img_size out = img_size img \<and>
                   length (img_data out) = length (img_data img)"
      using f 1 2 by blast
    from 3 4 5 ne splitext_concat[OF assms(2)] show ?thesis by simp
  qed
qed

text \<open>
  C10: a call of \<^verbatim>\<open>remove_background\<close> without an output path leaves the input file
  as it is, whether it succeeds or not, and changes no path but the one formed from
  the two parts \<^verbatim>\<open>os.path.splitext\<close> gives for the input path, with
  \<^verbatim>\<open>_transparent\<close> between them. The two parts make up the input path, and the
  second is empty or a dot followed by characters other than dot and slash. The path
  written differs from the input path, and on success it holds an image of the size of
  the input image.
\<close>

theorem default_output_path_is_sibling:
  assumes "remove_background w input_path None tolerance = (w', r)"
      and "splitext input_path = (base, ext)"
  shows "base @ ext = input_path \<and>
         (ext = [] \<or>
          (\<exists>zs. ext = CHR ''.'' # zs \<and> CHR ''.'' \<notin> set zs \<and> CHR ''/'' \<notin> set zs)) \<and>
         base @ ''_transparent'' @ ext \<noteq> input_path \<and>
         files w' input_path = files w input_path \<and>
         (\<forall>p. p \<noteq> base @ ''_transparent'' @ ext \<longrightarrow> files w' p = files w p) \<and>
         (r \<longrightarrow> (\<exists>img out. files w input_path = Some (ImageFile img) \<and>
                   files w' (base @ ''_transparent'' @ ext) = Some (ImageFile out) \<and>
                   img_size out = img_size img \<and>
                   length (img_data out) = length (img_data img)))"
proof -
  note f = default_output_path_facts [OF assms]
  from f have a: "base @ ext = input_path" by (rule conjunct1)
  from f have b: "base @ ''_transparent'' @ ext \<noteq> input_path \<and>
         files w' input_path = files w input_path \<and>
         (\<forall>p. p \<noteq> base @ ''_transparent'' @ ext \<longrightarrow> files w' p = files w p) \<and>
         (r \<longrightarrow> (\<exists>img out. files w input_path = Some (ImageFile img) \<and>
                   files w' (base @ ''_transparent'' @ ext) = Some (ImageFile out) \<and>
                   img_size out = img_size img \<and>
                   length (img_data out) = length (img_data img)))"
    by (rule conjunct2)
  show ?thesis
    by (rule conjI [OF a conjI [OF splitext_ext_shape [OF assms(2)] b]])
qed

theorem default_output_path_is_sibling_witness:
  "splitext ''a.png'' = (''a'', ''.png'') \<and>
   snd (remove_background (world_with ''a.png'' sample_rgb) ''a.png'' None 30) = True \<and>
   ''a'' @ ''_transparent'' @ ''.png'' = ''a_transparent.png'' \<and>
   ''.png'' = CHR ''.'' # ''png'' \<and>
   ''a_transparent.png'' \<noteq> ''a.png'' \<and>
   files (fst (remove_background (world_with ''a.png'' sample_rgb) ''a.png'' None 30)) ''a.png'' =
     files (world_with ''a.png'' sample_rgb) ''a.png'' \<and>
   (\<exists>img out. files (world_with ''a.png'' sample_rgb) ''a.png'' = Some (ImageFile img) \<and>
       files (fst (remove_background (world_with ''a.png'' sample_rgb) ''a.png'' None 30))
         ''a_transparent.png'' = Some (ImageFile out) \<and>
       img_size out = img_size img \<and>
       length (img_data out) = length (img_data img))"
proof -
  have sp: "splitext ''a.png'' = (''a'', ''.png'')"
    by code_simp
  have s: "snd (remove_background (world_with ''a.png'' sample_rgb) ''a.png'' None 30) = True"
    by code_simp
  then have h: "remove_background (world_with ''a.png'' sample_rgb) ''a.png'' None 30 =
     (fst (remove_background (world_with ''a.png'' sample_rgb) ''a.png'' None 30), True)"
    by (metis prod.collapse)
  from sp s default_output_path_is_sibling [OF h sp] show ?thesis by simp
qed

lemma corner_samples_shape:
  "length (corner_samples data W H) = 4"
  "corner_samples data W H = hd (corner_samples data W H) # tl (corner_samples data W H)"
  by (simp_all add: corner_samples_def)

section \<open>The vote of the four corners\<close>

text \<open>
  C2: for an image of width and height at least one, the detected background colour
  is one of the four corner samples, taken as RGB triples in the order top-left,
  top-right, bottom-left, bottom-right: the sample at the first place \<open>k\<close> of that
  sequence whose number of occurrences among the four is greatest. Every sample before
  place \<open>k\<close> occurs less often, and no sample occurs more often.
\<close>

theorem corner_vote:
  assumes "length data = W * H" and "1 \<le> W" and "1 \<le> H"
  shows "\<exists>k<4.
           detect_background data (W, H) = Inr (corner_samples data W H ! k) \<and>
           (\<forall>j<k. count_list (corner_samples data W H) (corner_samples data W H ! j)
                    < count_list (corner_samples data W H) (corner_samples data W H ! k)) \<and>
           (\<forall>j<4. count_list (corner_samples data W H) (corner_samples data W H ! j)
                    \<le> count_list (corner_samples data W H) (corner_samples data W H ! k))"
proof -
  let ?cs = "corner_samples data W H"
  have d: "detect_background data (W, H) =
             Inr (first_max (count_list ?cs) (hd ?cs) (tl ?cs))"
    by (rule detect_background_first_max[OF assms])
  from first_max_is_first_maximum[of "hd ?cs" "tl ?cs" "count_list ?cs"]
  obtain k where k: "k < length (hd ?cs # tl ?cs)"
    and eq: "(hd ?cs # tl ?cs) ! k = first_max (count_list ?cs) (hd ?cs) (tl ?cs)"
    and lt: "\<forall>j<k. count_list ?cs ((hd ?cs # tl ?cs) ! j) < count_list ?cs ((hd ?cs # tl ?cs) ! k)"
    and le: "\<forall>j<length (hd ?cs # tl ?cs).
               count_list ?cs ((hd ?cs # tl ?cs) ! j) \<le> count_list ?cs ((hd ?cs # tl ?cs) ! k)"
    by blast
  have cs: "hd ?cs # tl ?cs = ?cs" using corner_samples_shape(2)[of data W H] by simp
  have len: "length ?cs = 4" by (rule corner_samples_shape(1))
  from k eq lt le have "k < 4 \<and> detect_background data (W, H) = Inr (?cs ! k) \<and>
      (\<forall>j<k. count_list ?cs (?cs ! j) < count_list ?cs (?cs ! k)) \<and>
      (\<forall>j<4. count_list ?cs (?cs ! j) \<le> count_list ?cs (?cs ! k))"
    unfolding cs len d by simp
  then show ?thesis by blast
qed

theorem corner_vote_witness:
  "length [RGBA 1 2 3 4, RGBA 5 5 5 5, RGBA 5 5 5 9, RGBA 1 2 3 0] = 2 * 2 \<and>
   (1::nat) \<le> 2 \<and>
   corner_samples [RGBA 1 2 3 4, RGBA 5 5 5 5, RGBA 5 5 5 9, RGBA 1 2 3 0] 2 2 =
     [(1, 2, 3), (5, 5, 5), (5, 5, 5), (1, 2, 3)] \<and>
   detect_background [RGBA 1 2 3 4, RGBA 5 5 5 5, RGBA 5 5 5 9, RGBA 1 2 3 0] (2, 2) =
     Inr (1, 2, 3) \<and>
   (\<exists>k<4.
      detect_background [RGBA 1 2 3 4, RGBA 5 5 5 5, RGBA 5 5 5 9, RGBA 1 2 3 0] (2, 2) =
        Inr ([(1, 2, 3), (5, 5, 5), (5, 5, 5), (1::int, 2::int, 3::int)] ! k))"
proof -
  let ?d = "[RGBA 1 2 3 4, RGBA 5 5 5 5, RGBA 5 5 5 9, RGBA 1 2 3 0]"
  have a: "length ?d = 2 * 2" by simp
  have b: "(1::nat) \<le> 2" by simp
  have c: "corner_samples ?d 2 2 = [(1, 2, 3), (5, 5, 5), (5, 5, 5), (1, 2, 3)]"
    by code_simp
  have e: "detect_background ?d (2, 2) = Inr (1, 2, 3)"
    by code_simp
  from corner_vote [OF a b b] obtain k where
    "k < 4" "detect_background ?d (2, 2) = Inr (corner_samples ?d 2 2 ! k)"
    by blast
  then have "\<exists>k<4. detect_background ?d (2, 2) =
        Inr ([(1, 2, 3), (5, 5, 5), (5, 5, 5), (1::int, 2::int, 3::int)] ! k)"
    unfolding c by blast
  with a b c e show ?thesis by (intro conjI)
qed

section \<open>Images of one column or one row\<close>

text \<open>
  C6: for an image of width and height at least one, the image has a pixel, each of
  the four corner indices of lines 41--44 lies within the data, so reading the corners
  and detecting the background colour raise nothing. With one column the top-right
  index is the top-left one, with one row the bottom-left index is the top-left one, and
  for an image of one pixel the detected colour is that pixel's RGB triple.
\<close>

theorem corners_in_bounds:
  assumes "length data = W * H" and "1 \<le> W" and "1 \<le> H"
  shows "0 < int (length data) \<and>
         0 \<le> int W - 1 \<and> int W - 1 < int (length data) \<and>
         0 \<le> int W * (int H - 1) \<and> int W * (int H - 1) < int (length data) \<and>
         0 \<le> int W * int H - 1 \<and> int W * int H - 1 < int (length data) \<and>
         (\<exists>cs. corners data (W, H) = Inr cs) \<and>
         (\<exists>bg. detect_background data (W, H) = Inr bg) \<and>
         (W = 1 \<longrightarrow> getitem data (int W - 1) = getitem data 0) \<and>
         (H = 1 \<longrightarrow> getitem data (int W * (int H - 1)) = getitem data 0) \<and>
         (W = 1 \<and> H = 1 \<longrightarrow> detect_background data (W, H) = Inr (slice3 (data ! 0)))"
proof -
  note idx = corner_indices[OF assms]
  have c: "\<exists>cs. corners data (W, H) = Inr cs"
    using corners_pixel_at[OF assms] by blast
  have d: "\<exists>bg. detect_background data (W, H) = Inr bg"
    using detect_background_first_max[OF assms] by blast
  have w1: "W = 1 \<longrightarrow> getitem data (int W - 1) = getitem data 0" by simp
  have h1: "H = 1 \<longrightarrow> getitem data (int W * (int H - 1)) = getitem data 0" by simp
  have one: "W = 1 \<and> H = 1 \<longrightarrow> detect_background data (W, H) = Inr (slice3 (data ! 0))"
  proof
    assume wh: "W = 1 \<and> H = 1"
    then have cs: "corner_samples data W H =
        [slice3 (data ! 0), slice3 (data ! 0), slice3 (data ! 0), slice3 (data ! 0)]"
      by (simp add: corner_samples_def pixel_at_def)
    show "detect_background data (W, H) = Inr (slice3 (data ! 0))"
      unfolding detect_background_first_max[OF assms] cs by simp
  qed
  from idx c d w1 h1 one show ?thesis by (intro conjI)
qed

theorem corners_in_bounds_witness:
  "length [RGBA 9 8 7 6] = 1 * 1 \<and> (1::nat) \<le> 1 \<and>
   corners [RGBA 9 8 7 6] (1, 1) = Inr [RGBA 9 8 7 6, RGBA 9 8 7 6, RGBA 9 8 7 6, RGBA 9 8 7 6] \<and>
   detect_background [RGBA 9 8 7 6] (1, 1) = Inr (9, 8, 7) \<and>
   (\<exists>bg. detect_background [RGBA 9 8 7 6] (1, 1) = Inr bg)"
proof -
  have a: "length [RGBA 9 8 7 6] = 1 * 1" by simp
  have b: "(1::nat) \<le> 1" by simp
  have c: "corners [RGBA 9 8 7 6] (1, 1) =
             Inr [RGBA 9 8 7 6, RGBA 9 8 7 6, RGBA 9 8 7 6, RGBA 9 8 7 6]"
    by code_simp
  note r = corners_in_bounds [OF a b b]
  from r have e: "detect_background [RGBA 9 8 7 6] (1, 1) = Inr (9, 8, 7)" by simp
  from r have f: "\<exists>bg. detect_background [RGBA 9 8 7 6] (1, 1) = Inr bg" by blast
  from a b c e f show ?thesis by (intro conjI)
qed

section \<open>The batch run\<close>

lemma remove_white_background_undefined:
  "module_globals ''remove_white_background'' = None"
  by (simp add: module_globals_def)

lemma process_files_raises:
  "image_files \<noteq> [] \<Longrightarrow>
   snd (process_files w image_files tolerance backup success_count) =
     Inl (NameError ''remove_white_background'')"
  by (cases image_files) (simp_all add: Let_def remove_white_background_undefined)

text \<open>
  C3: \<^verbatim>\<open>remove_background\<close> turns every exception of its own into the value
  \<^verbatim>\<open>False\<close>, but \<^verbatim>\<open>process_directory\<close> calls the name \<^verbatim>\<open>remove_white_background\<close>,
  which the module does not define. For an existing directory in which at least one
  image file is found, the call for the first file raises \<^verbatim>\<open>NameError\<close>, nothing
  catches it, and \<^verbatim>\<open>process_directory\<close> ends with that exception: no file is
  processed and the files after the first are not reached.
\<close>

theorem batch_stops_at_first_file:
  assumes "path_exists w directory_path"
      and "find_images w directory_path image_extensions [] \<noteq> []"
  shows "snd (process_directory w directory_path tolerance backup) =
           Inl (NameError ''remove_white_background'')"
proof -
  let ?fs = "find_images w directory_path image_extensions []"
  let ?w2 = "foldl (\<lambda>w img_file. print w (MsgListed (basename img_file)))
               (print w (MsgFound (length ?fs))) ?fs"
  obtain w3 r where pf: "process_files ?w2 ?fs tolerance backup 0 = (w3, r)"
    by (cases "process_files ?w2 ?fs tolerance backup 0")
  with process_files_raises[OF assms(2), of ?w2 tolerance backup 0]
  have r: "r = Inl (NameError ''remove_white_background'')" by simp
  show ?thesis
    using assms pf r by (simp add: process_directory_def Let_def)
qed

theorem batch_stops_at_first_file_witness:
  "path_exists batch_world ''d'' \<and>
   find_images batch_world ''d'' image_extensions [] = [''d/b.png'', ''d/c.png''] \<and>
   snd (process_directory batch_world ''d'' 30 True) =
     Inl (NameError ''remove_white_background'') \<and>
   stdout (fst (process_directory batch_world ''d'' 30 True)) =
     [MsgFound 2, MsgListed ''b.png'', MsgListed ''c.png'', MsgProcessing ''b.png'',
      MsgBackupCreated ''b.png.backup''] \<and>
   files (fst (process_directory batch_world ''d'' 30 True)) ''d/b.png'' =
     Some (ImageFile sample_rgb) \<and>
   files (fst (process_directory batch_world ''d'' 30 True)) ''d/c.png'' =
     Some (ImageFile sample_near)"
proof -
  have a: "path_exists batch_world ''d''" by code_simp
  have b: "find_images batch_world ''d'' image_extensions [] = [''d/b.png'', ''d/c.png'']"
    by code_simp
  then have b': "find_images batch_world ''d'' image_extensions [] \<noteq> []" by simp
  have c: "stdout (fst (process_directory batch_world ''d'' 30 True)) =
     [MsgFound 2, MsgListed ''b.png'', MsgListed ''c.png'', MsgProcessing ''b.png'',
      MsgBackupCreated ''b.png.backup'']"
    by code_simp
  have d: "files (fst (process_directory batch_world ''d'' 30 True)) ''d/b.png'' =
     Some (ImageFile sample_rgb)"
    by code_simp
  have e: "files (fst (process_directory batch_world ''d'' 30 True)) ''d/c.png'' =
     Some (ImageFile sample_near)"
    by code_simp
  from a b c d e batch_stops_at_first_file [OF a b', of 30 True] show ?thesis
    by (intro conjI)
qed

section \<open>The tolerance argument of the command line\<close>

lemma path_exists_stdout [simp]:
  "path_exists (w\<lparr>stdout := ms\<rparr>) p = path_exists w p"
  by (simp add: path_exists_def)

text \<open>
  C9: whatever the builtin \<^verbatim>\<open>int\<close> does with the second argument: if it raises
  \<^verbatim>\<open>ValueError\<close>, \<^verbatim>\<open>main\<close> prints the warning first and, if the file exists, calls
  \<^verbatim>\<open>remove_background\<close> with tolerance 30; if it returns \<open>t\<close>, \<^verbatim>\<open>main\<close> prints no
  warning and calls \<^verbatim>\<open>remove_background\<close> with tolerance \<open>t\<close>. If the file does not
  exist, nothing is processed in either case.
\<close>

theorem main_tolerance:
  assumes "2 < length argv"
  shows
    "(builtin_int (argv ! 2) = None \<longrightarrow>
        main builtin_int argv w =
          (if path_exists w (resolve_filepath (argv ! 1))
           then (case remove_background
                        (w\<lparr>stdout := stdout w @
                             [MsgInvalidTolerance,
                              MsgProcessingFile (resolve_filepath (argv ! 1)),
                              MsgTolerance 30, MsgNoBackup]\<rparr>)
                        (resolve_filepath (argv ! 1))
                        (Some (resolve_filepath (argv ! 1))) 30 of
                   (w3, success) \<Rightarrow>
                     if success then print w3 MsgCompleted
                     else print w3 MsgProcessingFailed)
           else w\<lparr>stdout := stdout w @
                    [MsgInvalidTolerance,
                     MsgFileNotFound (resolve_filepath (argv ! 1))]\<rparr>)) \<and>
     (\<forall>t. builtin_int (argv ! 2) = Some t \<longrightarrow>
        main builtin_int argv w =
          (if path_exists w (resolve_filepath (argv ! 1))
           then (case remove_background
                        (w\<lparr>stdout := stdout w @
                             [MsgProcessingFile (resolve_filepath (argv ! 1)),
                              MsgTolerance t, MsgNoBackup]\<rparr>)
                        (resolve_filepath (argv ! 1))
                        (Some (resolve_filepath (argv ! 1))) t of
                   (w3, success) \<Rightarrow>
                     if success then print w3 MsgCompleted
                     else print w3 MsgProcessingFailed)
           else w\<lparr>stdout := stdout w @
                    [MsgFileNotFound (resolve_filepath (argv ! 1))]\<rparr>))"
proof (intro conjI allI impI)
  assume n: "builtin_int (argv ! 2) = None"
  show "main builtin_int argv w =
          (if path_exists w (resolve_filepath (argv ! 1))
           then (case remove_background
                        (w\<lparr>stdout := stdout w @
                             [MsgInvalidTolerance,
                              MsgProcessingFile (resolve_filepath (argv ! 1)),
                              MsgTolerance 30, MsgNoBackup]\<rparr>)
                        (resolve_filepath (argv ! 1))
                        (Some (resolve_filepath (argv ! 1))) 30 of
                   (w3, success) \<Rightarrow>
                     if success then print w3 MsgCompleted
                     else print w3 MsgProcessingFailed)
           else w\<lparr>stdout := stdout w @
                    [MsgInvalidTolerance,
                     MsgFileNotFound (resolve_filepath (argv ! 1))]\<rparr>)"
    using assms n by (simp add: main_def Let_def print_eq)
next
  fix t assume s: "builtin_int (argv ! 2) = Some t"
  show "main builtin_int argv w =
          (if path_exists w (resolve_filepath (argv ! 1))
           then (case remove_background
                        (w\<lparr>stdout := stdout w @
                             [MsgProcessingFile (resolve_filepath (argv ! 1)),
                              MsgTolerance t, MsgNoBackup]\<rparr>)
                        (resolve_filepath (argv ! 1))
                        (Some (resolve_filepath (argv ! 1))) t of
                   (w3, success) \<Rightarrow>
                     if success then print w3 MsgCompleted
                     else print w3 MsgProcessingFailed)
           else w\<lparr>stdout := stdout w @
                    [MsgFileNotFound (resolve_filepath (argv ! 1))]\<rparr>)"
    using assms s by (simp add: main_def Let_def print_eq)
qed

theorem main_tolerance_witness:
  "2 < length [''prog'', ''a.png'', ''abc''] \<and>
   py_int ([''prog'', ''a.png'', ''abc''] ! 2) = None \<and>
   py_int ([''prog'', ''a.png'', ''45''] ! 2) = Some 45 \<and>
   resolve_filepath ''a.png'' = ''assets/a.png'' \<and>
   stdout (main py_int [''prog'', ''a.png'', ''abc'']
             (world_with ''assets/a.png'' sample_near)) =
     [MsgInvalidTolerance, MsgProcessingFile ''assets/a.png'', MsgTolerance 30, MsgNoBackup,
      MsgOriginalSize (2, 1), MsgOriginalMode ModeRGB, MsgDetectedBackground (255, 255, 255),
      MsgSuccess, MsgPixelsChanged 2, MsgOutputSaved ''assets/a.png'', MsgCompleted] \<and>
   stdout (main py_int [''prog'', ''a.png'', ''45'']
             (world_with ''assets/a.png'' sample_near)) =
     [MsgProcessingFile ''assets/a.png'', MsgTolerance 45, MsgNoBackup,
      MsgOriginalSize (2, 1), MsgOriginalMode ModeRGB, MsgDetectedBackground (255, 255, 255),
      MsgSuccess, MsgPixelsChanged 2, MsgOutputSaved ''assets/a.png'', MsgCompleted] \<and>
   main py_int [''prog'', ''a.png'', ''abc''] (world_with ''assets/a.png'' sample_near) =
     (case remove_background
             ((world_with ''assets/a.png'' sample_near)
                \<lparr>stdout := stdout (world_with ''assets/a.png'' sample_near) @
                   [MsgInvalidTolerance, MsgProcessingFile ''assets/a.png'',
                    MsgTolerance 30, MsgNoBackup]\<rparr>)
             ''assets/a.png'' (Some ''assets/a.png'') 30 of
        (w3, success) \<Rightarrow>
          if success then print w3 MsgCompleted else print w3 MsgProcessingFailed) \<and>
   main py_int [''prog'', ''a.png'', ''45''] (world_with ''assets/a.png'' sample_near) =
     (case remove_background
             ((world_with ''assets/a.png'' sample_near)
                \<lparr>stdout := stdout (world_with ''assets/a.png'' sample_near) @
                   [MsgProcessingFile ''assets/a.png'', MsgTolerance 45, MsgNoBackup]\<rparr>)
             ''assets/a.png'' (Some ''assets/a.png'') 45 of
        (w3, success) \<Rightarrow>
          if success then print w3 MsgCompleted else print w3 MsgProcessingFailed)"
proof -
  let ?w = "world_with ''assets/a.png'' sample_near"
  have a: "2 < length [''prog'', ''a.png'', ''abc'']" by simp
  have a': "2 < length [''prog'', ''a.png'', ''45'']" by simp
  have b: "py_int ([''prog'', ''a.png'', ''abc''] ! 2) = None" by code_simp
  have c: "py_int ([''prog'', ''a.png'', ''45''] ! 2) = Some 45" by code_simp
  have d: "resolve_filepath ''a.png'' = ''assets/a.png''" by code_simp
  have e: "stdout (main py_int [''prog'', ''a.png'', ''abc''] ?w) =
     [MsgInvalidTolerance, MsgProcessingFile ''assets/a.png'', MsgTolerance 30, MsgNoBackup,
      MsgOriginalSize (2, 1), MsgOriginalMode ModeRGB, MsgDetectedBackground (255, 255, 255),
      MsgSuccess, MsgPixelsChanged 2, MsgOutputSaved ''assets/a.png'', MsgCompleted]"
    by code_simp
  have f: "stdout (main py_int [''prog'', ''a.png'', ''45''] ?w) =
     [MsgProcessingFile ''assets/a.png'', MsgTolerance 45, MsgNoBackup,
      MsgOriginalSize (2, 1), MsgOriginalMode ModeRGB, MsgDetectedBackground (255, 255, 255),
      MsgSuccess, MsgPixelsChanged 2, MsgOutputSaved ''assets/a.png'', MsgCompleted]"
    by code_simp
  have ex: "path_exists ?w ''assets/a.png''" by code_simp
  from main_tolerance [OF a, of py_int ?w, THEN conjunct1] b
  have g: "main py_int [''prog'', ''a.png'', ''abc''] ?w =
     (case remove_background
             (?w\<lparr>stdout := stdout ?w @
                   [MsgInvalidTolerance, MsgProcessingFile ''assets/a.png'',
                    MsgTolerance 30, MsgNoBackup]\<rparr>)
             ''assets/a.png'' (Some ''assets/a.png'') 30 of
        (w3, success) \<Rightarrow>
          if success then print w3 MsgCompleted else print w3 MsgProcessingFailed)"
    using d ex by simp
  from main_tolerance [OF a', of py_int ?w, THEN conjunct2] c
  have h: "main py_int [''prog'', ''a.png'', ''45''] ?w =
     (case remove_background
             (?w\<lparr>stdout := stdout ?w @
                   [MsgProcessingFile ''assets/a.png'', MsgTolerance 45, MsgNoBackup]\<rparr>)
             ''assets/a.png'' (Some ''assets/a.png'') 45 of
        (w3, success) \<Rightarrow>
          if success then print w3 MsgCompleted else print w3 MsgProcessingFailed)"
    using d ex by simp
  from a b c d e f g h show ?thesis by (intro conjI)
qed

end
